theory Spec2Isabelle
  imports Main
begin

section \<open>Outcomes of a call\<close>

text \<open>
  A C++ call either returns a value, throws an exception, fails an \<open>assert\<close>, or runs
  into undefined behaviour (a null or wild pointer is dereferenced, an array is read out
  of range). The only exception type thrown by the code modelled here is
  \<open>TransactionException\<close>; it carries its message.
\<close>

datatype exception = TransactionException string

datatype 'a outcome = Returns 'a | Throws exception | AssertionFailed | Undefined

section \<open>The catalog set (catalog\_set.cpp)\<close>

subsection \<open>Objects and pointers\<close>

text \<open>
  Catalog entries are heap objects that point at each other: \<open>child\<close> is an owning
  \<open>unique_ptr\<close>, \<open>parent\<close> a raw back pointer, and the undo buffer of a transaction keeps
  raw pointers to entries. The model keeps the objects in a store, a list indexed by
  address; a pointer is \<open>None\<close> (\<open>nullptr\<close>) or \<open>Some a\<close> with \<open>a\<close> an address.
  An address at or beyond the length of the store is a wild pointer. \<open>make_unique\<close>
  places the new object at the end of the store. The store keeps every object ever
  allocated: the destructor that runs when a \<open>unique_ptr\<close> is overwritten or goes
  out of scope is not modelled, so a destroyed object stays in the store, unreachable.

  \<open>transaction_t\<close> is an unsigned integer type of the code base; timestamps are only
  compared, never computed with, and are modelled as natural numbers.
  All methods of the set run under \<open>catalog_lock\<close>; each is modelled as one atomic step.
\<close>

type_synonym transaction_t = nat
type_synonym ptr = nat

record AbstractCatalogEntry =
  catalog :: nat
  cset :: "nat option"
  name :: string
  deleted :: bool
  timestamp :: transaction_t
  child :: "ptr option"
  parent :: "ptr option"

record Transaction =
  start_time :: transaction_t
  transaction_id :: transaction_t
  undo_buffer :: "ptr option list"

record CatalogSet =
  this_set :: nat
  data :: "string \<Rightarrow> ptr option option"
  store :: "AbstractCatalogEntry list"

text \<open>
  \<open>data s k = None\<close>: the key \<open>k\<close> is not in the unordered map;
  \<open>data s k = Some p\<close>: the map holds the \<open>unique_ptr\<close> \<open>p\<close> under \<open>k\<close>.
\<close>

definition deref :: "AbstractCatalogEntry list \<Rightarrow> ptr option \<Rightarrow> AbstractCatalogEntry option" where
  "deref h p = (case p of None \<Rightarrow> None
                | Some a \<Rightarrow> if a < length h then Some (h ! a) else None)"

text \<open>
  Modelled from the spec: \<open>Transaction::PushCatalogEntry\<close> is not among the sources.
  The undo buffer is an ordered sequence of back pointers to version nodes; pushing
  appends the pointer.
\<close>

definition PushCatalogEntry :: "Transaction \<Rightarrow> ptr option \<Rightarrow> Transaction" where
  "PushCatalogEntry T e = T\<lparr>undo_buffer := undo_buffer T @ [e]\<rparr>"

subsection \<open>CreateEntry\<close>

text \<open>
  Lines 41 to 51 of \<open>CreateEntry\<close>: the new entry is stamped with the transaction's
  id, takes over the pointer stored under the name as its child, becomes that child's
  parent, the child is pushed into the undo buffer, and the new entry is stored under
  the name. A mutating method returns its outcome together with the state it leaves;
  next to \<open>Undefined\<close> that state has no meaning.
\<close>

definition CreateEntry_replace ::
  "CatalogSet \<Rightarrow> Transaction \<Rightarrow> string \<Rightarrow> ptr option \<Rightarrow> bool outcome \<times> CatalogSet \<times> Transaction" where
  "CreateEntry_replace s T nm val =
     (case val of
        None \<Rightarrow> (Undefined, s, T)
      | Some v \<Rightarrow>
          if \<not> v < length (store s) then (Undefined, s, T)
          else
            let h1 = (store s)[v := (store s ! v)\<lparr>timestamp := transaction_id T\<rparr>];
                c = (case data s nm of None \<Rightarrow> None | Some u \<Rightarrow> u);
                h2 = h1[v := (h1 ! v)\<lparr>child := c\<rparr>]
            in (case c of
                  None \<Rightarrow> (Undefined, s, T)
                | Some cp \<Rightarrow>
                    if \<not> cp < length h2 then (Undefined, s, T)
                    else
                      let h3 = h2[cp := (h2 ! cp)\<lparr>parent := Some v\<rparr>];
                          h4 = h3[v := (h3 ! v)\<lparr>cset := Some (this_set s)\<rparr>];
                          T' = PushCatalogEntry T (child (h4 ! v))
                      in (Returns True,
                          s\<lparr>data := (data s)(nm \<mapsto> Some v), store := h4\<rparr>,
                          T')))"

text \<open>
  \<open>TRANSACTION_ID_START\<close> is a constant of the transaction manager's header, which is
  not among the sources; it is a parameter of the model. The constructor
  \<open>AbstractCatalogEntry(catalog, name)\<close> is not among the sources either: the dummy
  node gets the catalog and name passed to it, a null \<open>child\<close> (a fresh \<open>unique_ptr\<close>)
  and a null \<open>parent\<close> (overwritten at line 46 before it is read).
\<close>

definition CreateEntry ::
  "transaction_t \<Rightarrow> CatalogSet \<Rightarrow> Transaction \<Rightarrow> string \<Rightarrow> ptr option
     \<Rightarrow> bool outcome \<times> CatalogSet \<times> Transaction" where
  "CreateEntry TRANSACTION_ID_START s T nm val =
     (case data s nm of
        None \<Rightarrow>
          (case deref (store s) val of
             None \<Rightarrow> (Undefined, s, T)
           | Some v \<Rightarrow>
               let dummy_node = \<lparr>catalog = catalog v, cset = Some (this_set s), name = nm,
                                 deleted = True, timestamp = 0, child = None, parent = None\<rparr>;
                   s1 = s\<lparr>data := (data s)(nm \<mapsto> Some (length (store s))),
                          store := store s @ [dummy_node]\<rparr>
               in CreateEntry_replace s1 T nm val)
      | Some entry \<Rightarrow>
          (case deref (store s) entry of
             None \<Rightarrow> (Undefined, s, T)
           | Some current \<Rightarrow>
               if timestamp current \<ge> TRANSACTION_ID_START
               then (Throws (TransactionException ''Catalog write-write conflict!''), s, T)
               else if \<not> deleted current then (Returns False, s, T)
               else CreateEntry_replace s T nm val))"

subsection \<open>DropEntry\<close>

definition DropEntry :: "CatalogSet \<Rightarrow> Transaction \<Rightarrow> string \<Rightarrow> bool outcome \<times> CatalogSet \<times> Transaction" where
  "DropEntry s T nm = (Returns False, s, T)"

subsection \<open>EntryExists and GetEntry\<close>

text \<open>
  The two lookups walk the version chain with a \<open>while\<close> loop each. On a store whose
  child pointers run in a cycle the loop does not end, so each loop is a partial
  function: \<open>None\<close> means that the loop does not return. The loop returns the address
  at which it stops. The \<open>assert(current)\<close> in the body cannot fail: the loop condition
  has just found \<open>current->child\<close> to be non-null.
\<close>

partial_function (option) EntryExists_loop ::
  "AbstractCatalogEntry list \<Rightarrow> Transaction \<Rightarrow> ptr \<Rightarrow> ptr outcome option" where
  "EntryExists_loop h T current =
     (if \<not> current < length h then Some Undefined
      else
        (case child (h ! current) of
           None \<Rightarrow> Some (Returns current)
         | Some c \<Rightarrow>
             if timestamp (h ! current) = transaction_id T then Some (Returns current)
             else if timestamp (h ! current) < start_time T then Some (Returns current)
             else EntryExists_loop h T c))"

definition EntryExists :: "CatalogSet \<Rightarrow> Transaction \<Rightarrow> string \<Rightarrow> bool outcome option" where
  "EntryExists s T nm =
     (case data s nm of
        None \<Rightarrow> Some (Returns False)
      | Some entry \<Rightarrow>
          (case entry of
             None \<Rightarrow> Some Undefined
           | Some first \<Rightarrow>
               (case EntryExists_loop (store s) T first of
                  None \<Rightarrow> None
                | Some (Returns current) \<Rightarrow>
                    (case deref (store s) (Some current) of
                       None \<Rightarrow> Some Undefined
                     | Some e \<Rightarrow> Some (Returns (\<not> deleted e)))
                | Some _ \<Rightarrow> Some Undefined)))"

partial_function (option) GetEntry_loop ::
  "AbstractCatalogEntry list \<Rightarrow> Transaction \<Rightarrow> ptr \<Rightarrow> ptr outcome option" where
  "GetEntry_loop h T current =
     (if \<not> current < length h then Some Undefined
      else
        (case child (h ! current) of
           None \<Rightarrow> Some (Returns current)
         | Some c \<Rightarrow>
             if timestamp (h ! current) = transaction_id T then Some (Returns current)
             else if timestamp (h ! current) < start_time T then Some (Returns current)
             else GetEntry_loop h T c))"

definition GetEntry :: "CatalogSet \<Rightarrow> Transaction \<Rightarrow> string \<Rightarrow> ptr option outcome option" where
  "GetEntry s T nm =
     (case data s nm of
        None \<Rightarrow> Some (Returns None)
      | Some entry \<Rightarrow>
          (case entry of
             None \<Rightarrow> Some Undefined
           | Some first \<Rightarrow>
               (case GetEntry_loop (store s) T first of
                  None \<Rightarrow> None
                | Some (Returns current) \<Rightarrow>
                    (case deref (store s) (Some current) of
                       None \<Rightarrow> Some Undefined
                     | Some e \<Rightarrow> Some (Returns (if deleted e then None else Some current)))
                | Some _ \<Rightarrow> Some Undefined)))"

subsection \<open>Undo\<close>

text \<open>
  A move assignment \<open>a = move(b)\<close> of \<open>unique_ptr\<close>s first releases \<open>b\<close> (which
  becomes null) and then stores the released pointer in \<open>a\<close>.
\<close>

definition Undo :: "CatalogSet \<Rightarrow> ptr option \<Rightarrow> unit outcome \<times> CatalogSet" where
  "Undo s entry =
     (case deref (store s) entry of
        None \<Rightarrow> (Undefined, s)
      | Some e \<Rightarrow>
          (case deref (store s) (parent e) of
             None \<Rightarrow> (Undefined, s)
           | Some par \<Rightarrow>
               let p = the (parent e);
                   moved = child par;
                   h1 = (store s)[p := par\<lparr>child := None\<rparr>]
               in (case parent par of
                     Some pp \<Rightarrow>
                       if \<not> pp < length h1 then (Undefined, s)
                       else (Returns (), s\<lparr>store := h1[pp := (h1 ! pp)\<lparr>child := moved\<rparr>]\<rparr>)
                   | None \<Rightarrow>
                       (Returns (), s\<lparr>data := (data s)(name e \<mapsto> moved), store := h1\<rparr>))))"

subsection \<open>Well-formed sets\<close>

text \<open>
  The shape that the methods of the set keep up and rely on: a pointer stored in the map
  or in a \<open>child\<close> field points into the store, and the entry stored under a key carries
  that key as its name (\<open>Undo\<close> finds the map slot through \<open>entry->name\<close>).
\<close>

definition wf_CatalogSet :: "CatalogSet \<Rightarrow> bool" where
  "wf_CatalogSet s \<longleftrightarrow>
     (\<forall>k p. data s k = Some (Some p) \<longrightarrow> p < length (store s) \<and> name (store s ! p) = k) \<and>
     (\<forall>a c. a < length (store s) \<and> child (store s ! a) = Some c \<longrightarrow> c < length (store s))"

text \<open>
  The entry handed to \<open>CreateEntry\<close> is a \<open>unique_ptr\<close> to an entry that the caller has
  just constructed: the object exists, it has no parent, and nothing in the set points
  to it.
\<close>

definition fresh_entry :: "CatalogSet \<Rightarrow> ptr \<Rightarrow> bool" where
  "fresh_entry s v \<longleftrightarrow>
     v < length (store s) \<and> parent (store s ! v) = None \<and>
     (\<forall>k. data s k \<noteq> Some (Some v)) \<and>
     (\<forall>a. a < length (store s) \<longrightarrow> child (store s ! a) \<noteq> Some v)"

text \<open>A chain of child pointers that stays inside the store and ends in a node without child.\<close>

inductive chain :: "AbstractCatalogEntry list \<Rightarrow> ptr \<Rightarrow> bool" for h where
  terminal: "a < length h \<Longrightarrow> child (h ! a) = None \<Longrightarrow> chain h a"
| link: "a < length h \<Longrightarrow> child (h ! a) = Some c \<Longrightarrow> chain h c \<Longrightarrow> chain h a"

section \<open>The column segment (segment.cpp)\<close>

subsection \<open>Data\<close>

text \<open>
  \<open>row_t\<close>, \<open>idx_t\<close>, \<open>sel_t\<close> and \<open>block_id_t\<close> are integer types declared in a header
  that is not among the sources. Row identifiers and offsets (\<open>row_t\<close>, signed) are
  modelled as integers, counts, indices and tuple offsets (\<open>idx_t\<close>, \<open>sel_t\<close>) as natural
  numbers: the model assumes that \<open>ids[i] - offset\<close> and the vector offset do not leave
  the range of their machine types. An array passed by pointer is a list; reading it at
  or beyond its length is undefined behaviour.

  The chain of \<open>UpdateInfo\<close> nodes of one vector is a null-terminated list linked through
  \<open>next\<close>, newest first; it is modelled as a datatype whose last field is the next node.
  The fields \<open>prev\<close>, \<open>column_data\<close>, \<open>segment\<close>, \<open>vector_index\<close> and the payload are not
  read by the functions modelled here and are left out.
  The \<open>assert\<close>s of \<open>Update\<close> and its \<open>DEBUG\<close> block depend on the build, which is a
  parameter of the model.
  The segment's reader/writer lock serialises the calls; each call is one atomic step.
\<close>

type_synonym row_t = int
type_synonym idx_t = nat
type_synonym sel_t = nat
type_synonym block_id_t = int

datatype UpdateInfo =
  UpdateInfo (version_number: transaction_t) (N: idx_t) (tuples: "sel_t list")
             (next_info: "UpdateInfo option")

record Segment =
  block_id :: block_id_t
  max_vector_count :: idx_t
  versions :: "UpdateInfo option list option"

datatype StorageLockKey = SharedLock | ExclusiveLock

record ColumnScanState =
  locks :: "StorageLockKey list"

subsection \<open>CheckForConflicts\<close>

text \<open>The \<open>while (true)\<close> loop of \<open>CheckForConflicts\<close>, started with \<open>i = 0\<close>, \<open>j = 0\<close>.\<close>

function CheckForConflicts_loop ::
  "row_t list \<Rightarrow> idx_t \<Rightarrow> row_t \<Rightarrow> sel_t list \<Rightarrow> idx_t \<Rightarrow> idx_t \<Rightarrow> idx_t \<Rightarrow> unit outcome" where
  "CheckForConflicts_loop ids count offset tups n i j =
     (if \<not> (i < length ids \<and> j < length tups) then Undefined
      else if ids ! i - offset = int (tups ! j)
        then Throws (TransactionException ''Conflict on update!'')
      else if ids ! i - offset < int (tups ! j)
        then (if i + 1 = count then Returns ()
              else CheckForConflicts_loop ids count offset tups n (i + 1) j)
      else (if j + 1 = n then Returns ()
            else CheckForConflicts_loop ids count offset tups n i (j + 1)))"
  by pat_completeness auto
termination
  by (relation "measure (\<lambda>(ids, count, offset, tups, n, i, j).
                  (length ids - i) + (length tups - j))") auto

fun CheckForConflicts ::
  "UpdateInfo \<Rightarrow> Transaction \<Rightarrow> row_t list \<Rightarrow> idx_t \<Rightarrow> row_t \<Rightarrow> UpdateInfo option
     \<Rightarrow> UpdateInfo option outcome" where
  "CheckForConflicts (UpdateInfo vn n tups nxt) T ids count offset node =
     (case (if vn = transaction_id T then Returns (Some (UpdateInfo vn n tups nxt))
            else if vn > start_time T then
              (case CheckForConflicts_loop ids count offset tups n 0 0 of
                 Returns _ \<Rightarrow> Returns node
               | Throws e \<Rightarrow> Throws e
               | AssertionFailed \<Rightarrow> AssertionFailed
               | Undefined \<Rightarrow> Undefined)
            else Returns node) of
        Returns node' \<Rightarrow>
          (case nxt of
             None \<Rightarrow> Returns node'
           | Some nx \<Rightarrow> CheckForConflicts nx T ids count offset node')
      | Throws e \<Rightarrow> Throws e
      | AssertionFailed \<Rightarrow> AssertionFailed
      | Undefined \<Rightarrow> Undefined)"

subsection \<open>Update\<close>

text \<open>The \<open>DEBUG\<close> loop of \<open>Update\<close>, started with \<open>i = 1\<close>.\<close>

function Update_verify_ids :: "row_t list \<Rightarrow> idx_t \<Rightarrow> idx_t \<Rightarrow> unit outcome" where
  "Update_verify_ids ids count i =
     (if i < count then
        (if \<not> i < length ids then Undefined
         else if ids ! i > ids ! (i - 1) then Update_verify_ids ids count (i + 1)
         else AssertionFailed)
      else Returns ())"
  by pat_completeness auto
termination
  by (relation "measure (\<lambda>(ids, count, i). count - i)") auto

text \<open>Lines 56 to 62 of \<open>Update\<close>: the versions array is created when there is none yet.\<close>

definition Update_create_versions :: "Segment \<Rightarrow> Segment" where
  "Update_create_versions seg =
     (case versions seg of
        None \<Rightarrow> seg\<lparr>versions := Some (replicate (max_vector_count seg) None)\<rparr>
      | Some _ \<Rightarrow> seg)"

text \<open>
  \<open>MAXIMUM_BLOCK\<close> and \<open>STANDARD_VECTOR_SIZE\<close> are constants of headers that are not among
  the sources; they are parameters. The nine-argument \<open>Update\<close> that the method ends with
  is a virtual method implemented by the subclasses of the segment, none of which is
  among the sources; it is the parameter \<open>Update_vector\<close>.

  The method depends on the build through two preprocessor symbols, which are parameters
  as well: an \<open>assert\<close> is compiled in unless \<open>NDEBUG\<close> is defined, and the block that
  verifies the ids is compiled in when \<open>DEBUG\<close> is defined (its body is an \<open>assert\<close>, so it
  does something only when \<open>NDEBUG\<close> is not defined). With \<open>NDEBUG\<close> the method goes on
  where an assertion would have failed.

  The division of \<open>row_t\<close> values truncates towards zero. Its quotient becomes a vector
  index of the unsigned type \<open>idx_t\<close>: a negative quotient, which only a build without
  assertions gets as far as using, turns into an index at the far end of the range of
  \<open>idx_t\<close>, beyond every versions array, and reading the array there is undefined.
\<close>

definition Update ::
  "bool \<Rightarrow> bool \<Rightarrow> block_id_t \<Rightarrow> idx_t
   \<Rightarrow> (Segment \<Rightarrow> Transaction \<Rightarrow> 'v \<Rightarrow> row_t list \<Rightarrow> idx_t \<Rightarrow> idx_t \<Rightarrow> row_t \<Rightarrow> UpdateInfo option
        \<Rightarrow> unit outcome \<times> Segment \<times> Transaction)
   \<Rightarrow> Segment \<Rightarrow> Transaction \<Rightarrow> 'v \<Rightarrow> row_t list \<Rightarrow> idx_t \<Rightarrow> row_t
   \<Rightarrow> unit outcome \<times> Segment \<times> Transaction" where
  "Update DEBUG NDEBUG MAXIMUM_BLOCK STANDARD_VECTOR_SIZE Update_vector seg T upd ids count
      offset =
     (if \<not> NDEBUG \<and> \<not> block_id seg \<ge> MAXIMUM_BLOCK then (AssertionFailed, seg, T)
      else
        (case (if DEBUG \<and> \<not> NDEBUG then Update_verify_ids ids count 1 else Returns ()) of
           Throws e \<Rightarrow> (Throws e, seg, T)
         | AssertionFailed \<Rightarrow> (AssertionFailed, seg, T)
         | Undefined \<Rightarrow> (Undefined, seg, T)
         | Returns _ \<Rightarrow>
             let seg1 = Update_create_versions seg
             in
               if ids = [] \<or> STANDARD_VECTOR_SIZE = 0 then (Undefined, seg1, T)
               else
                 let first_id = ids ! 0;
                     quotient = (if first_id - offset < 0
                                 then - ((offset - first_id) div int STANDARD_VECTOR_SIZE)
                                 else (first_id - offset) div int STANDARD_VECTOR_SIZE)
                 in
                 if \<not> NDEBUG \<and> \<not> first_id \<ge> offset then (AssertionFailed, seg1, T)
                 else if quotient < 0 then (Undefined, seg1, T)
                 else
                   let vector_index = nat quotient;
                       vector_offset = offset + int (vector_index * STANDARD_VECTOR_SIZE)
                   in
                     if \<not> NDEBUG \<and> \<not> vector_index < max_vector_count seg1
                     then (AssertionFailed, seg1, T)
                     else
                       (case versions seg1 of
                          None \<Rightarrow> (Undefined, seg1, T)
                        | Some vs \<Rightarrow>
                            if \<not> vector_index < length vs then (Undefined, seg1, T)
                            else
                              (case vs ! vector_index of
                                 None \<Rightarrow>
                                   Update_vector seg1 T upd ids count vector_index vector_offset None
                               | Some info \<Rightarrow>
                                   (case CheckForConflicts info T ids count vector_offset None of
                                      Returns node \<Rightarrow>
                                        Update_vector seg1 T upd ids count vector_index
                                          vector_offset node
                                    | Throws e \<Rightarrow> (Throws e, seg1, T)
                                    | AssertionFailed \<Rightarrow> (AssertionFailed, seg1, T)
                                    | Undefined \<Rightarrow> (Undefined, seg1, T))))))"

subsection \<open>IndexScan\<close>

text \<open>
  \<open>FetchBaseData\<close> is a virtual method implemented by the subclasses of the segment; it
  is a parameter. \<open>lock.GetSharedLock()\<close> yields a key that holds the shared lock for as
  long as the key lives; the key is pushed onto \<open>state.locks\<close>.
\<close>

definition IndexScan ::
  "(Segment \<Rightarrow> ColumnScanState \<Rightarrow> idx_t \<Rightarrow> 'r outcome \<times> ColumnScanState)
   \<Rightarrow> Segment \<Rightarrow> ColumnScanState \<Rightarrow> idx_t \<Rightarrow> 'r outcome \<times> ColumnScanState" where
  "IndexScan FetchBaseData seg state vector_index =
     (let state1 = (if vector_index = 0 then state\<lparr>locks := locks state @ [SharedLock]\<rparr>
                    else state)
      in (case versions seg of
            None \<Rightarrow> FetchBaseData seg state1 vector_index
          | Some vs \<Rightarrow>
              if \<not> vector_index < length vs then (Undefined, state1)
              else if vs ! vector_index \<noteq> None
                then (Throws (TransactionException
                        ''Cannot create index with outstanding updates''), state1)
              else FetchBaseData seg state1 vector_index))"

subsection \<open>ToTemporary\<close>

text \<open>
  Modelled from the spec: the buffer manager's \<open>Pin\<close> and \<open>Allocate\<close> are not among the
  sources. \<open>Pin(block_id)\<close> yields a handle on the buffer of that block, \<open>Allocate(size)\<close>
  a handle on a fresh in-memory block with a buffer of its own. The manager is modelled
  by the buffers it holds; the handle that \<open>Allocate\<close> yields (its block id and its
  buffer) is a parameter. In-memory blocks are those with an id of at least
  \<open>MAXIMUM_BLOCK\<close>, and the constructor of \<open>ManagedBuffer\<close> asserts as much of the id it
  is given; the theorem on \<open>ToTemporary\<close> takes it as a hypothesis on the handle.
  \<open>BLOCK_SIZE\<close> is a constant of a header that is not among the sources.
\<close>

record BufferManager =
  buffers :: "block_id_t \<Rightarrow> nat list option"

definition ToTemporary ::
  "block_id_t \<Rightarrow> nat \<Rightarrow> block_id_t \<times> nat list \<Rightarrow> BufferManager \<Rightarrow> Segment
   \<Rightarrow> unit outcome \<times> Segment \<times> BufferManager" where
  "ToTemporary MAXIMUM_BLOCK BLOCK_SIZE handle manager seg =
     (if block_id seg \<ge> MAXIMUM_BLOCK then (Returns (), seg, manager)
      else
        (case buffers manager (block_id seg) of
           None \<Rightarrow> (Undefined, seg, manager)
         | Some current \<Rightarrow>
             if length current < BLOCK_SIZE \<or> length (snd handle) < BLOCK_SIZE
             then (Undefined, seg, manager)
             else
               (Returns (),
                seg\<lparr>block_id := fst handle\<rparr>,
                manager\<lparr>buffers := (buffers manager)
                   (fst handle \<mapsto> take BLOCK_SIZE current @ drop BLOCK_SIZE (snd handle))\<rparr>)))"

subsection \<open>Well-formed update chains\<close>

text \<open>The nodes of a chain, newest first.\<close>

fun update_chain :: "UpdateInfo \<Rightarrow> UpdateInfo list" where
  "update_chain (UpdateInfo vn n tups nxt) =
     UpdateInfo vn n tups nxt # (case nxt of None \<Rightarrow> [] | Some nx \<Rightarrow> update_chain nx)"

text \<open>
  A node holds at least one tuple, its \<open>N\<close> entries lie inside the array \<open>tuples\<close>, and they
  are strictly ascending.
\<close>

definition wf_UpdateInfo :: "UpdateInfo \<Rightarrow> bool" where
  "wf_UpdateInfo info \<longleftrightarrow>
     0 < N info \<and> N info \<le> length (tuples info) \<and>
     sorted_wrt (<) (take (N info) (tuples info))"

text \<open>
  The node was written by another transaction and is not visible to \<open>T\<close>: the second
  branch of \<open>CheckForConflicts\<close>.
\<close>

definition concurrent_writer :: "Transaction \<Rightarrow> UpdateInfo \<Rightarrow> bool" where
  "concurrent_writer T info \<longleftrightarrow>
     version_number info \<noteq> transaction_id T \<and> version_number info > start_time T"

text \<open>Some of the first \<open>count\<close> ids, minus the offset, is one of the node's tuples.\<close>

definition shares_tuple :: "row_t list \<Rightarrow> idx_t \<Rightarrow> row_t \<Rightarrow> UpdateInfo \<Rightarrow> bool" where
  "shares_tuple ids count offset info \<longleftrightarrow>
     (\<exists>x \<in> set (take count ids). \<exists>t \<in> set (take (N info) (tuples info)). x - offset = int t)"

section \<open>Example states\<close>

text \<open>
  Concrete sets, transactions and segments at which the theorems below are instantiated.
  In all of them \<open>TRANSACTION_ID_START\<close> is 100: timestamps below 100 are commit
  timestamps, timestamps from 100 on are ids of transactions in flight.
\<close>

definition entry_example ::
  "string \<Rightarrow> bool \<Rightarrow> transaction_t \<Rightarrow> ptr option \<Rightarrow> ptr option \<Rightarrow> AbstractCatalogEntry" where
  "entry_example nm del ts ch par =
     \<lparr>catalog = 0, cset = Some 0, name = nm, deleted = del, timestamp = ts,
      child = ch, parent = par\<rparr>"

text \<open>An empty set; the object at address 0 is an entry the caller has just constructed.\<close>

definition set_empty :: CatalogSet where
  "set_empty = \<lparr>this_set = 0, data = Map.empty,
                 store = [entry_example ''t'' False 0 None None]\<rparr>"

text \<open>
  \<open>''t''\<close> was created and committed at time 1 (address 0, above the dummy node at
  address 1); address 2 is an entry the caller has just constructed.
\<close>

definition set_live :: CatalogSet where
  "set_live = \<lparr>this_set = 0, data = Map.empty(''t'' \<mapsto> Some 0),
                store = [entry_example ''t'' False 1 (Some 1) None,
                         entry_example ''t'' True 0 None (Some 0),
                         entry_example ''t'' False 0 None None]\<rparr>"

text \<open>As \<open>set_live\<close>, but the head was written by transaction 100, still in flight.\<close>

definition set_inflight :: CatalogSet where
  "set_inflight = \<lparr>this_set = 0, data = Map.empty(''t'' \<mapsto> Some 0),
                    store = [entry_example ''t'' False 100 (Some 1) None,
                             entry_example ''t'' True 0 None (Some 0),
                             entry_example ''t'' False 0 None None]\<rparr>"

text \<open>
  \<open>''t''\<close> was created at time 1 and dropped at time 2 (deleted version at address 0);
  address 3 is an entry the caller has just constructed.
\<close>

definition set_dropped :: CatalogSet where
  "set_dropped = \<lparr>this_set = 0, data = Map.empty(''t'' \<mapsto> Some 0),
                   store = [entry_example ''t'' True 2 (Some 1) None,
                            entry_example ''t'' False 1 (Some 2) (Some 0),
                            entry_example ''t'' True 0 None (Some 1),
                            entry_example ''t'' False 0 None None]\<rparr>"

definition txn1 :: Transaction where
  "txn1 = \<lparr>start_time = 5, transaction_id = 100, undo_buffer = []\<rparr>"

definition txn2 :: Transaction where
  "txn2 = \<lparr>start_time = 5, transaction_id = 101, undo_buffer = []\<rparr>"

text \<open>
  A mutable segment of two vectors (\<open>MAXIMUM_BLOCK\<close> is 1000, \<open>STANDARD_VECTOR_SIZE\<close> 1024).
  Vector 0 has no updates. In vector 1, transaction 101, in flight, has updated rows 3
  and 7, and an update of row 5 was committed at time 7.
\<close>

definition seg_updated :: Segment where
  "seg_updated = \<lparr>block_id = 1000, max_vector_count = 2,
                   versions = Some [None,
                     Some (UpdateInfo 101 2 [3, 7] (Some (UpdateInfo 7 1 [5] None)))]\<rparr>"

text \<open>An immutable segment: block 3 is a block on disk.\<close>

definition seg_immutable :: Segment where
  "seg_immutable = \<lparr>block_id = 3, max_vector_count = 2, versions = None\<rparr>"

definition manager_example :: BufferManager where
  "manager_example = \<lparr>buffers = Map.empty(3 \<mapsto> [1, 2, 3, 4])\<rparr>"

text \<open>Stand-ins for the two virtual methods: they return at once and change nothing.\<close>

definition Update_vector_none ::
  "Segment \<Rightarrow> Transaction \<Rightarrow> unit \<Rightarrow> row_t list \<Rightarrow> idx_t \<Rightarrow> idx_t \<Rightarrow> row_t \<Rightarrow> UpdateInfo option
     \<Rightarrow> unit outcome \<times> Segment \<times> Transaction" where
  "Update_vector_none seg T upd ids count vector_index vector_offset node = (Returns (), seg, T)"

definition FetchBaseData_none ::
  "Segment \<Rightarrow> ColumnScanState \<Rightarrow> idx_t \<Rightarrow> unit outcome \<times> ColumnScanState" where
  "FetchBaseData_none seg state vector_index = (Returns (), state)"

section \<open>Properties of the catalog set\<close>

lemma loops_le:
  assumes "EntryExists_loop h T p = Some y" shows "GetEntry_loop h T p = Some y"
proof (rule EntryExists_loop.raw_induct[where P = "\<lambda>h T p y. GetEntry_loop h T p = Some y", OF _ assms], goal_cases)
  case (1 f h T p y)
  then show ?case
    by (subst GetEntry_loop.simps) (auto split: if_splits option.splits)
qed

lemma loops_ge:
  assumes "GetEntry_loop h T p = Some y" shows "EntryExists_loop h T p = Some y"
proof (rule GetEntry_loop.raw_induct[where P = "\<lambda>h T p y. EntryExists_loop h T p = Some y", OF _ assms], goal_cases)
  case (1 f h T p y)
  then show ?case
    by (subst EntryExists_loop.simps) (auto split: if_splits option.splits)
qed

lemma EntryExists_loop_eq: "EntryExists_loop h T p = GetEntry_loop h T p"
proof (cases "EntryExists_loop h T p")
  case None
  show ?thesis
  proof (cases "GetEntry_loop h T p")
    case None2: None
    with None show ?thesis by simp
  next
    case (Some y)
    from loops_ge[OF this] None show ?thesis by simp
  qed
next
  case (Some y)
  from loops_le[OF this] Some show ?thesis by simp
qed


lemma GetEntry_loop_frame_le:
  assumes run: "GetEntry_loop h T p = Some y"
    and agree: "\<forall>a\<in>A. a < length h \<and> a < length h' \<and>
                  child (h' ! a) = child (h ! a) \<and> timestamp (h' ! a) = timestamp (h ! a)"
    and closed: "\<forall>a\<in>A. \<forall>c. child (h ! a) = Some c \<longrightarrow> c \<in> A"
    and start: "p \<in> A"
  shows "GetEntry_loop h' T p = Some y \<and> (\<forall>q. y = Returns q \<longrightarrow> q \<in> A)"
proof -
  let ?P = "\<lambda>h0 T0 p y. h0 = h \<longrightarrow> p \<in> A \<longrightarrow>
              GetEntry_loop h' T0 p = Some y \<and> (\<forall>q. y = Returns q \<longrightarrow> q \<in> A)"
  have "?P h T p y"
  proof (rule GetEntry_loop.raw_induct[where P = ?P, OF _ run], goal_cases)
    case (1 f h0 T0 p y)
    show ?case
    proof (intro impI)
      assume h0: "h0 = h" and pA: "p \<in> A"
      from agree pA have lt: "p < length h" and lt': "p < length h'"
        and ch: "child (h' ! p) = child (h ! p)"
        and ts: "timestamp (h' ! p) = timestamp (h ! p)" by simp_all
      show "GetEntry_loop h' T0 p = Some y \<and> (\<forall>q. y = Returns q \<longrightarrow> q \<in> A)"
      proof (cases "child (h ! p)")
        case None
        with 1(2) h0 lt have "y = Returns p" by simp
        moreover have "GetEntry_loop h' T0 p = Some (Returns p)"
          using None ch lt' by (subst GetEntry_loop.simps) simp
        ultimately show ?thesis using pA by simp
      next
        case (Some c)
        show ?thesis
        proof (cases "timestamp (h ! p) = transaction_id T0 \<or> timestamp (h ! p) < start_time T0")
          case True
          with 1(2) h0 lt Some have "y = Returns p" by (auto split: if_splits)
          moreover have "GetEntry_loop h' T0 p = Some (Returns p)"
            using Some True ch ts lt' by (subst GetEntry_loop.simps) auto
          ultimately show ?thesis using pA by simp
        next
          case False
          with 1(2) h0 lt Some have "f h T0 c = Some y" by (auto split: if_splits)
          from 1(1)[OF this] closed pA Some
          have r: "GetEntry_loop h' T0 c = Some y \<and> (\<forall>q. y = Returns q \<longrightarrow> q \<in> A)" by simp
          have "GetEntry_loop h' T0 p = GetEntry_loop h' T0 c"
            using Some False ch ts lt' by (subst GetEntry_loop.simps) auto
          with r show ?thesis by simp
        qed
      qed
    qed
  qed
  with start show ?thesis by simp
qed

lemma GetEntry_loop_frame:
  assumes agree: "\<forall>a\<in>A. a < length h \<and> a < length h' \<and>
                  child (h' ! a) = child (h ! a) \<and> timestamp (h' ! a) = timestamp (h ! a)"
    and closed: "\<forall>a\<in>A. \<forall>c. child (h ! a) = Some c \<longrightarrow> c \<in> A"
    and start: "p \<in> A"
  shows "GetEntry_loop h' T p = GetEntry_loop h T p"
proof -
  have agree': "\<forall>a\<in>A. a < length h' \<and> a < length h \<and>
                  child (h ! a) = child (h' ! a) \<and> timestamp (h ! a) = timestamp (h' ! a)"
    using agree by simp
  have closed': "\<forall>a\<in>A. \<forall>c. child (h' ! a) = Some c \<longrightarrow> c \<in> A"
    using agree closed by simp
  show ?thesis
  proof (cases "GetEntry_loop h T p")
    case (Some y)
    from GetEntry_loop_frame_le[OF Some agree closed start] Some show ?thesis by simp
  next
    case None
    show ?thesis
    proof (cases "GetEntry_loop h' T p")
      case None2: None
      with None show ?thesis by simp
    next
      case (Some y)
      from GetEntry_loop_frame_le[OF Some agree' closed' start] None show ?thesis by simp
    qed
  qed
qed

lemma GetEntry_loop_result:
  assumes run: "GetEntry_loop h T p = Some (Returns q)"
    and closed: "\<forall>a\<in>A. \<forall>c. child (h ! a) = Some c \<longrightarrow> c \<in> A"
    and lt: "\<forall>a\<in>A. a < length h"
    and start: "p \<in> A"
  shows "q \<in> A"
proof -
  have "\<forall>a\<in>A. a < length h \<and> a < length h \<and>
                  child (h ! a) = child (h ! a) \<and> timestamp (h ! a) = timestamp (h ! a)"
    using lt by simp
  from GetEntry_loop_frame_le[OF run this closed start] show ?thesis by simp
qed

lemma lookup_frame:
  assumes dat: "data s' nm = data s nm"
    and head: "\<forall>p. data s nm = Some (Some p) \<longrightarrow> p \<in> A"
    and agree: "\<forall>a\<in>A. a < length (store s) \<and> a < length (store s') \<and>
                  child (store s' ! a) = child (store s ! a) \<and>
                  timestamp (store s' ! a) = timestamp (store s ! a) \<and>
                  deleted (store s' ! a) = deleted (store s ! a)"
    and closed: "\<forall>a\<in>A. \<forall>c. child (store s ! a) = Some c \<longrightarrow> c \<in> A"
  shows "GetEntry s' T nm = GetEntry s T nm \<and> EntryExists s' T nm = EntryExists s T nm"
proof (cases "data s nm")
  case None
  with dat show ?thesis by (simp add: GetEntry_def EntryExists_def)
next
  case (Some u)
  show ?thesis
  proof (cases u)
    case None
    with Some dat show ?thesis by (simp add: GetEntry_def EntryExists_def)
  next
    case (Some p)
    with \<open>data s nm = Some u\<close> have d: "data s nm = Some (Some p)" by simp
    from head d have pA: "p \<in> A" by simp
    have ag: "\<forall>a\<in>A. a < length (store s) \<and> a < length (store s') \<and>
                  child (store s' ! a) = child (store s ! a) \<and>
                  timestamp (store s' ! a) = timestamp (store s ! a)"
      using agree by simp
    have lt: "\<forall>a\<in>A. a < length (store s)" using agree by simp
    have eq: "GetEntry_loop (store s') T p = GetEntry_loop (store s) T p"
      by (rule GetEntry_loop_frame[OF ag closed pA])
    show ?thesis
    proof (cases "GetEntry_loop (store s) T p")
      case None
      with eq d dat show ?thesis
        by (simp add: GetEntry_def EntryExists_def EntryExists_loop_eq)
    next
      case (Some y)
      show ?thesis
      proof (cases y)
        case (Returns q)
        with Some have "GetEntry_loop (store s) T p = Some (Returns q)" by simp
        from GetEntry_loop_result[OF this closed lt pA] have "q \<in> A" .
        with agree Some Returns eq d dat show ?thesis
          by (simp add: GetEntry_def EntryExists_def EntryExists_loop_eq deref_def)
      qed (use Some eq d dat in \<open>simp_all add: GetEntry_def EntryExists_def EntryExists_loop_eq\<close>)
    qed
  qed
qed

lemma chain_GetEntry_loop:
  assumes "chain h p"
  shows "\<exists>q. GetEntry_loop h T p = Some (Returns q) \<and> q < length h"
  using assms
proof (induction rule: chain.induct)
  case (terminal a)
  then show ?case by (subst GetEntry_loop.simps) simp
next
  case (link a c)
  then show ?case by (subst GetEntry_loop.simps) auto
qed

lemmas example_defs = entry_example_def set_empty_def set_live_def set_inflight_def
  set_dropped_def txn1_def txn2_def

lemma GetEntry_loop_stop:
  "current < length h \<Longrightarrow>
   child (h ! current) = None \<or> timestamp (h ! current) = transaction_id T \<or>
     timestamp (h ! current) < start_time T \<Longrightarrow>
   GetEntry_loop h T current = Some (Returns current)"
  by (subst GetEntry_loop.simps) (auto split: option.splits)

lemma GetEntry_loop_step:
  "current < length h \<Longrightarrow> child (h ! current) = Some c \<Longrightarrow>
   timestamp (h ! current) \<noteq> transaction_id T \<Longrightarrow>
   \<not> timestamp (h ! current) < start_time T \<Longrightarrow>
   GetEntry_loop h T current = GetEntry_loop h T c"
  by (subst GetEntry_loop.simps) simp

text \<open>
  Claim C1. When the newest version stored under the name is committed (its timestamp is
  below \<open>TRANSACTION_ID_START\<close>) and not deleted, \<open>CreateEntry\<close> returns false, without
  an exception; when its timestamp is at least \<open>TRANSACTION_ID_START\<close> (an uncommitted
  write of a transaction in flight), \<open>CreateEntry\<close> throws the write-write conflict.
\<close>
theorem CreateEntry_live_or_uncommitted_head:
  assumes "data s nm = Some entry" and "deref (store s) entry = Some current"
  shows "(timestamp current < TRANSACTION_ID_START \<and> \<not> deleted current \<longrightarrow>
            CreateEntry TRANSACTION_ID_START s T nm val = (Returns False, s, T)) \<and>
         (TRANSACTION_ID_START \<le> timestamp current \<longrightarrow>
            CreateEntry TRANSACTION_ID_START s T nm val =
              (Throws (TransactionException ''Catalog write-write conflict!''), s, T))"
  using assms by (simp add: CreateEntry_def)

theorem CreateEntry_live_or_uncommitted_head_witness:
  "CreateEntry 100 set_live txn1 ''t'' (Some 2) = (Returns False, set_live, txn1) \<and>
   CreateEntry 100 set_inflight txn2 ''t'' (Some 2) =
     (Throws (TransactionException ''Catalog write-write conflict!''), set_inflight, txn2)"
  using CreateEntry_live_or_uncommitted_head
          [where s = set_live and nm = "''t''" and entry = "Some 0"
             and current = "entry_example ''t'' False 1 (Some 1) None"
             and TRANSACTION_ID_START = 100 and T = txn1 and val = "Some 2"]
        CreateEntry_live_or_uncommitted_head
          [where s = set_inflight and nm = "''t''" and entry = "Some 0"
             and current = "entry_example ''t'' False 100 (Some 1) None"
             and TRANSACTION_ID_START = 100 and T = txn2 and val = "Some 2"]
  by (simp add: example_defs deref_def)

text \<open>
  Claim C2 says that \<open>CreateEntry\<close> succeeds when the head is an uncommitted version
  written by the calling transaction itself. The code does not compare the head's
  timestamp with the caller's id: in \<open>set_inflight\<close> the head was written by transaction
  100, and \<open>CreateEntry\<close> by transaction 100 throws.
\<close>
theorem CreateEntry_own_uncommitted_head_counterexample:
  "data set_inflight ''t'' = Some (Some 0) \<and>
   timestamp (store set_inflight ! 0) = transaction_id txn1 \<and>
   CreateEntry 100 set_inflight txn1 ''t'' (Some 2) =
     (Throws (TransactionException ''Catalog write-write conflict!''), set_inflight, txn1)"
  by (simp add: example_defs deref_def CreateEntry_def)

text \<open>
  Claim C2, amended. When the head is an uncommitted version written by the calling
  transaction itself (its timestamp is the caller's id, which is at least
  \<open>TRANSACTION_ID_START\<close>), \<open>CreateEntry\<close> throws the write-write conflict and leaves the
  set and the transaction as they were.
\<close>
theorem CreateEntry_own_uncommitted_head_throws:
  assumes "data s nm = Some entry" and "deref (store s) entry = Some current"
    and "timestamp current = transaction_id T"
    and "TRANSACTION_ID_START \<le> transaction_id T"
  shows "CreateEntry TRANSACTION_ID_START s T nm val =
           (Throws (TransactionException ''Catalog write-write conflict!''), s, T)"
  using assms by (simp add: CreateEntry_def)

theorem CreateEntry_own_uncommitted_head_throws_witness:
  "CreateEntry 100 set_inflight txn1 ''t'' (Some 2) =
     (Throws (TransactionException ''Catalog write-write conflict!''), set_inflight, txn1)"
  using CreateEntry_own_uncommitted_head_throws
          [where s = set_inflight and nm = "''t''" and entry = "Some 0"
             and current = "entry_example ''t'' False 100 (Some 1) None"
             and TRANSACTION_ID_START = 100 and T = txn1 and val = "Some 2"]
  by (simp add: example_defs deref_def)

text \<open>
  Claim C3 says that \<open>DropEntry\<close> on a name whose visible version is live returns true and
  prepends a deleted version. The method is a stub: in \<open>set_live\<close> transaction \<open>txn1\<close> sees
  the live entry at address 0, \<open>DropEntry\<close> returns false and changes nothing, and the
  entry still exists for \<open>txn1\<close> afterwards.
\<close>
theorem DropEntry_live_entry_not_dropped:
  "GetEntry set_live txn1 ''t'' = Some (Returns (Some 0)) \<and>
   DropEntry set_live txn1 ''t'' = (Returns False, set_live, txn1) \<and>
   EntryExists set_live txn1 ''t'' = Some (Returns True)"
  by (simp add: DropEntry_def GetEntry_def EntryExists_def EntryExists_loop_eq
        GetEntry_loop_stop example_defs deref_def)

lemma CreateEntry_replace_outcome:
  "CreateEntry_replace s T nm val = (r, s', T') \<Longrightarrow> r = Returns True \<or> r = Undefined"
  by (auto simp: CreateEntry_replace_def Let_def split: option.splits if_splits)

text \<open>
  Claim C10. When \<open>CreateEntry\<close> returns false or throws, the set (its map and every
  object of the store) and the transaction (its undo buffer) are what they were before
  the call.
\<close>
theorem CreateEntry_failure_atomic:
  assumes "CreateEntry TRANSACTION_ID_START s T nm val = (r, s', T')"
    and "r = Returns False \<or> r = Throws e"
  shows "s' = s \<and> T' = T"
  using assms
  by (auto simp: CreateEntry_def Let_def split: option.splits if_splits
           dest: CreateEntry_replace_outcome)

theorem CreateEntry_failure_atomic_witness:
  "fst (CreateEntry 100 set_live txn1 ''t'' (Some 2)) = Returns False \<and>
   snd (CreateEntry 100 set_live txn1 ''t'' (Some 2)) = (set_live, txn1) \<and>
   fst (CreateEntry 100 set_inflight txn2 ''t'' (Some 2)) =
     Throws (TransactionException ''Catalog write-write conflict!'') \<and>
   snd (CreateEntry 100 set_inflight txn2 ''t'' (Some 2)) = (set_inflight, txn2)"
proof -
  obtain r s' T' where a: "CreateEntry 100 set_live txn1 ''t'' (Some 2) = (r, s', T')"
    by (cases "CreateEntry 100 set_live txn1 ''t'' (Some 2)")
  have ra: "fst (CreateEntry 100 set_live txn1 ''t'' (Some 2)) = Returns False"
    by (simp add: CreateEntry_def example_defs deref_def)
  with a have "r = Returns False" by simp
  with CreateEntry_failure_atomic[OF a] have sa: "s' = set_live \<and> T' = txn1" by simp
  obtain r2 s2 T2 where b: "CreateEntry 100 set_inflight txn2 ''t'' (Some 2) = (r2, s2, T2)"
    by (cases "CreateEntry 100 set_inflight txn2 ''t'' (Some 2)")
  have rb: "fst (CreateEntry 100 set_inflight txn2 ''t'' (Some 2)) =
              Throws (TransactionException ''Catalog write-write conflict!'')"
    by (simp add: CreateEntry_def example_defs deref_def)
  with b have "r2 = Throws (TransactionException ''Catalog write-write conflict!'')" by simp
  with CreateEntry_failure_atomic[OF b] have sb: "s2 = set_inflight \<and> T2 = txn2" by simp
  from a ra sa b rb sb show ?thesis by simp
qed

lemma CreateEntry_new_name:
  assumes "data s nm = None" and "v < length (store s)"
  shows "\<exists>s'. CreateEntry TRANSACTION_ID_START s T nm (Some v) =
           (Returns True, s', T\<lparr>undo_buffer := undo_buffer T @ [Some (length (store s))]\<rparr>) \<and>
         data s' = (data s)(nm \<mapsto> Some v) \<and>
         this_set s' = this_set s \<and>
         length (store s') = Suc (length (store s)) \<and>
         store s' ! v = (store s ! v)\<lparr>timestamp := transaction_id T,
                          child := Some (length (store s)), cset := Some (this_set s)\<rparr> \<and>
         store s' ! length (store s) =
           \<lparr>catalog = catalog (store s ! v), cset = Some (this_set s), name = nm,
            deleted = True, timestamp = 0, child = None, parent = Some v\<rparr> \<and>
         (\<forall>a. a < length (store s) \<and> a \<noteq> v \<longrightarrow> store s' ! a = store s ! a)"
  using assms
  by (simp add: CreateEntry_def CreateEntry_replace_def Let_def deref_def
        PushCatalogEntry_def nth_append nth_list_update)

text \<open>
  Claim C4. \<open>CreateEntry\<close> for a name that is not in the map succeeds: the new version
  \<open>v\<close> is stored under the name, stamped with the id of the creating transaction \<open>T\<close>,
  and its child \<open>d\<close> is a dummy node that is deleted, has timestamp 0 and no child.
  For every other transaction \<open>T2\<close> (a different id) whose start time does not exceed the
  id of \<open>T\<close> (start times are commit timestamps, below \<open>TRANSACTION_ID_START\<close>; ids are at
  or above it), \<open>GetEntry\<close> returns no entry and \<open>EntryExists\<close> returns false as long as
  the new version carries the id of \<open>T\<close>.
\<close>
theorem CreateEntry_new_name_invisible:
  assumes "data s nm = None" and "deref (store s) val = Some e"
    and "transaction_id T2 \<noteq> transaction_id T"
    and "start_time T2 \<le> transaction_id T"
  shows "\<exists>s' T' v d.
           CreateEntry TRANSACTION_ID_START s T nm val = (Returns True, s', T') \<and>
           val = Some v \<and> data s' nm = Some (Some v) \<and>
           timestamp (store s' ! v) = transaction_id T \<and>
           child (store s' ! v) = Some d \<and> d < length (store s') \<and>
           timestamp (store s' ! d) = 0 \<and> deleted (store s' ! d) \<and>
           child (store s' ! d) = None \<and>
           GetEntry s' T2 nm = Some (Returns None) \<and>
           EntryExists s' T2 nm = Some (Returns False)"
proof -
  from assms(2) obtain v where v: "val = Some v" "v < length (store s)"
    by (auto simp: deref_def split: option.splits if_splits)
  from CreateEntry_new_name[OF assms(1) v(2), of TRANSACTION_ID_START T]
  obtain s' where s':
    "CreateEntry TRANSACTION_ID_START s T nm (Some v) =
       (Returns True, s', T\<lparr>undo_buffer := undo_buffer T @ [Some (length (store s))]\<rparr>)"
    "data s' = (data s)(nm \<mapsto> Some v)"
    "length (store s') = Suc (length (store s))"
    "store s' ! v = (store s ! v)\<lparr>timestamp := transaction_id T,
                          child := Some (length (store s)), cset := Some (this_set s)\<rparr>"
    "store s' ! length (store s) =
           \<lparr>catalog = catalog (store s ! v), cset = Some (this_set s), name = nm,
            deleted = True, timestamp = 0, child = None, parent = Some v\<rparr>"
    by blast
  let ?d = "length (store s)"
  have l1: "GetEntry_loop (store s') T2 v = GetEntry_loop (store s') T2 ?d"
    using s' v assms(3,4) by (intro GetEntry_loop_step) auto
  have l2: "GetEntry_loop (store s') T2 ?d = Some (Returns ?d)"
    using s' by (intro GetEntry_loop_stop) auto
  have g: "GetEntry s' T2 nm = Some (Returns None)"
    using s' l1 l2 by (simp add: GetEntry_def deref_def)
  have x: "EntryExists s' T2 nm = Some (Returns False)"
    using s' l1 l2 by (simp add: EntryExists_def EntryExists_loop_eq deref_def)
  show ?thesis
    using s' v g x by (intro exI[of _ s'] exI[of _ "T\<lparr>undo_buffer := undo_buffer T @ [Some ?d]\<rparr>"] exI[of _ v] exI[of _ ?d]) simp
qed

theorem CreateEntry_new_name_invisible_witness:
  "CreateEntry 100 set_empty txn1 ''t'' (Some 0) =
     (Returns True,
      \<lparr>this_set = 0, data = Map.empty(''t'' \<mapsto> Some 0),
       store = [entry_example ''t'' False 100 (Some 1) None,
                entry_example ''t'' True 0 None (Some 0)]\<rparr>,
      txn1\<lparr>undo_buffer := [Some 1]\<rparr>) \<and>
   GetEntry (fst (snd (CreateEntry 100 set_empty txn1 ''t'' (Some 0)))) txn2 ''t'' =
     Some (Returns None) \<and>
   EntryExists (fst (snd (CreateEntry 100 set_empty txn1 ''t'' (Some 0)))) txn2 ''t'' =
     Some (Returns False)"
proof -
  have c: "CreateEntry 100 set_empty txn1 ''t'' (Some 0) =
     (Returns True,
      \<lparr>this_set = 0, data = Map.empty(''t'' \<mapsto> Some 0),
       store = [entry_example ''t'' False 100 (Some 1) None,
                entry_example ''t'' True 0 None (Some 0)]\<rparr>,
      txn1\<lparr>undo_buffer := [Some 1]\<rparr>)"
    by (simp add: CreateEntry_def CreateEntry_replace_def Let_def deref_def
          PushCatalogEntry_def example_defs)
  have "data set_empty ''t'' = None"
    and "deref (store set_empty) (Some 0) = Some (entry_example ''t'' False 0 None None)"
    and "transaction_id txn2 \<noteq> transaction_id txn1"
    and "start_time txn2 \<le> transaction_id txn1"
    by (simp_all add: example_defs deref_def)
  from CreateEntry_new_name_invisible[OF this, of 100] c show ?thesis
    by auto
qed

lemma CreateEntry_deleted_head:
  assumes "data s nm = Some (Some p)" and "p < length (store s)" and "v < length (store s)"
    and "p \<noteq> v" and "timestamp (store s ! p) < TRANSACTION_ID_START"
    and "deleted (store s ! p)"
  shows "\<exists>s'. CreateEntry TRANSACTION_ID_START s T nm (Some v) =
           (Returns True, s', T\<lparr>undo_buffer := undo_buffer T @ [Some p]\<rparr>) \<and>
         data s' = (data s)(nm \<mapsto> Some v) \<and>
         this_set s' = this_set s \<and>
         length (store s') = length (store s) \<and>
         store s' ! v = (store s ! v)\<lparr>timestamp := transaction_id T,
                          child := Some p, cset := Some (this_set s)\<rparr> \<and>
         store s' ! p = (store s ! p)\<lparr>parent := Some v\<rparr> \<and>
         (\<forall>a. a < length (store s) \<and> a \<noteq> v \<and> a \<noteq> p \<longrightarrow> store s' ! a = store s ! a)"
  using assms
  by (simp add: CreateEntry_def CreateEntry_replace_def Let_def deref_def
        PushCatalogEntry_def nth_list_update)

lemma CreateEntry_success_cases:
  assumes "CreateEntry TRANSACTION_ID_START s T nm (Some v) = (Returns True, s', T')"
  shows "(data s nm = None \<and> v < length (store s)) \<or>
         (\<exists>p. data s nm = Some (Some p) \<and> p < length (store s) \<and> v < length (store s) \<and>
              timestamp (store s ! p) < TRANSACTION_ID_START \<and> deleted (store s ! p))"
  using assms
  by (auto simp: CreateEntry_def CreateEntry_replace_def Let_def deref_def
           split: option.splits if_splits)

lemma Undo_after_new_name:
  assumes wf: "wf_CatalogSet s" and fresh: "fresh_entry s v" and none: "data s nm = None"
    and cr: "CreateEntry TRANSACTION_ID_START s T nm (Some v) = (Returns True, s', T')"
  shows "\<exists>s''. T' = T\<lparr>undo_buffer := undo_buffer T @ [Some (length (store s))]\<rparr> \<and>
           Undo s' (Some (length (store s))) = (Returns (), s'') \<and>
           (\<forall>T2 k. GetEntry s'' T2 k = GetEntry s T2 k \<and>
                    EntryExists s'' T2 k = EntryExists s T2 k)"
proof -
  let ?d = "length (store s)"
  from fresh have v: "v < ?d" and vpar: "parent (store s ! v) = None"
    by (simp_all add: fresh_entry_def)
  from CreateEntry_new_name[OF none v, of TRANSACTION_ID_START T] cr
  have T': "T' = T\<lparr>undo_buffer := undo_buffer T @ [Some ?d]\<rparr>"
    and dat: "data s' = (data s)(nm \<mapsto> Some v)"
    and len: "length (store s') = Suc ?d"
    and at_v: "store s' ! v = (store s ! v)\<lparr>timestamp := transaction_id T,
                          child := Some ?d, cset := Some (this_set s)\<rparr>"
    and at_d: "store s' ! ?d =
           \<lparr>catalog = catalog (store s ! v), cset = Some (this_set s), name = nm,
            deleted = True, timestamp = 0, child = None, parent = Some v\<rparr>"
    and rest: "\<forall>a. a < ?d \<and> a \<noteq> v \<longrightarrow> store s' ! a = store s ! a"
    by auto
  define s'' where "s'' = s'\<lparr>data := (data s')(nm \<mapsto> Some ?d),
                              store := (store s')[v := (store s' ! v)\<lparr>child := None\<rparr>]\<rparr>"
  have undo: "Undo s' (Some ?d) = (Returns (), s'')"
    using len at_v at_d v vpar by (simp add: Undo_def deref_def Let_def s''_def)
  have dat'': "data s'' = (data s)(nm \<mapsto> Some ?d)"
    using dat by (simp add: s''_def)
  have len'': "length (store s'') = Suc ?d" using len by (simp add: s''_def)
  have at_d'': "store s'' ! ?d = store s' ! ?d" using v by (simp add: s''_def)
  have rest'': "\<forall>a. a < ?d \<and> a \<noteq> v \<longrightarrow> store s'' ! a = store s ! a"
    using rest by (simp add: s''_def)
  have look: "GetEntry s'' T2 k = GetEntry s T2 k \<and> EntryExists s'' T2 k = EntryExists s T2 k"
    for T2 k
  proof (cases "k = nm")
    case True
    have l: "GetEntry_loop (store s'') T2 ?d = Some (Returns ?d)"
      using len'' at_d'' at_d by (intro GetEntry_loop_stop) auto
    show ?thesis
      using True none dat'' l len'' at_d'' at_d
      by (simp add: GetEntry_def EntryExists_def EntryExists_loop_eq deref_def)
  next
    case False
    let ?A = "{a. a < ?d \<and> a \<noteq> v}"
    have 1: "data s'' k = data s k" using False dat'' by simp
    have 2: "\<forall>p. data s k = Some (Some p) \<longrightarrow> p \<in> ?A"
      using wf fresh by (auto simp: wf_CatalogSet_def fresh_entry_def)
    have 3: "\<forall>a\<in>?A. a < length (store s) \<and> a < length (store s'') \<and>
                  child (store s'' ! a) = child (store s ! a) \<and>
                  timestamp (store s'' ! a) = timestamp (store s ! a) \<and>
                  deleted (store s'' ! a) = deleted (store s ! a)"
      using rest'' len'' by simp
    have 4: "\<forall>a\<in>?A. \<forall>c. child (store s ! a) = Some c \<longrightarrow> c \<in> ?A"
      using wf fresh by (auto simp: wf_CatalogSet_def fresh_entry_def)
    show ?thesis by (rule lookup_frame[OF 1 2 3 4])
  qed
  from T' undo look show ?thesis by blast
qed

lemma Undo_after_deleted_head:
  assumes wf: "wf_CatalogSet s" and fresh: "fresh_entry s v"
    and head: "data s nm = Some (Some p)"
    and ts: "timestamp (store s ! p) < TRANSACTION_ID_START" and del: "deleted (store s ! p)"
    and cr: "CreateEntry TRANSACTION_ID_START s T nm (Some v) = (Returns True, s', T')"
  shows "\<exists>s''. T' = T\<lparr>undo_buffer := undo_buffer T @ [Some p]\<rparr> \<and>
           Undo s' (Some p) = (Returns (), s'') \<and>
           (\<forall>T2 k. GetEntry s'' T2 k = GetEntry s T2 k \<and>
                    EntryExists s'' T2 k = EntryExists s T2 k)"
proof -
  let ?n = "length (store s)"
  from fresh have v: "v < ?n" and vpar: "parent (store s ! v) = None"
    by (simp_all add: fresh_entry_def)
  from wf head have p: "p < ?n" and pname: "name (store s ! p) = nm"
    by (simp_all add: wf_CatalogSet_def)
  from fresh head have pv: "p \<noteq> v" by (auto simp: fresh_entry_def)
  from CreateEntry_deleted_head[OF head p v pv ts del, of T] cr
  have T': "T' = T\<lparr>undo_buffer := undo_buffer T @ [Some p]\<rparr>"
    and dat: "data s' = (data s)(nm \<mapsto> Some v)"
    and len: "length (store s') = ?n"
    and at_v: "store s' ! v = (store s ! v)\<lparr>timestamp := transaction_id T,
                          child := Some p, cset := Some (this_set s)\<rparr>"
    and at_p: "store s' ! p = (store s ! p)\<lparr>parent := Some v\<rparr>"
    and rest: "\<forall>a. a < ?n \<and> a \<noteq> v \<and> a \<noteq> p \<longrightarrow> store s' ! a = store s ! a"
    by auto
  define s'' where "s'' = s'\<lparr>data := (data s')(nm \<mapsto> Some p),
                              store := (store s')[v := (store s' ! v)\<lparr>child := None\<rparr>]\<rparr>"
  have undo: "Undo s' (Some p) = (Returns (), s'')"
    using len at_v at_p v p vpar pname by (simp add: Undo_def deref_def Let_def s''_def)
  have dat'': "data s'' = data s"
    using dat head by (auto simp: s''_def)
  have len'': "length (store s'') = ?n" using len by (simp add: s''_def)
  have at_p'': "store s'' ! p = (store s ! p)\<lparr>parent := Some v\<rparr>"
    using at_p pv by (simp add: s''_def)
  have rest'': "\<forall>a. a < ?n \<and> a \<noteq> v \<and> a \<noteq> p \<longrightarrow> store s'' ! a = store s ! a"
    using rest by (simp add: s''_def)
  have look: "GetEntry s'' T2 k = GetEntry s T2 k \<and> EntryExists s'' T2 k = EntryExists s T2 k"
    for T2 k
  proof -
    let ?A = "{a. a < ?n \<and> a \<noteq> v}"
    have 1: "data s'' k = data s k" using dat'' by simp
    have 2: "\<forall>q. data s k = Some (Some q) \<longrightarrow> q \<in> ?A"
      using wf fresh by (auto simp: wf_CatalogSet_def fresh_entry_def)
    have 3: "\<forall>a\<in>?A. a < length (store s) \<and> a < length (store s'') \<and>
                  child (store s'' ! a) = child (store s ! a) \<and>
                  timestamp (store s'' ! a) = timestamp (store s ! a) \<and>
                  deleted (store s'' ! a) = deleted (store s ! a)"
    proof
      fix a assume "a \<in> ?A"
      then show "a < length (store s) \<and> a < length (store s'') \<and>
                  child (store s'' ! a) = child (store s ! a) \<and>
                  timestamp (store s'' ! a) = timestamp (store s ! a) \<and>
                  deleted (store s'' ! a) = deleted (store s ! a)"
        using rest'' len'' at_p'' by (cases "a = p") simp_all
    qed
    have 4: "\<forall>a\<in>?A. \<forall>c. child (store s ! a) = Some c \<longrightarrow> c \<in> ?A"
      using wf fresh by (auto simp: wf_CatalogSet_def fresh_entry_def)
    show ?thesis by (rule lookup_frame[OF 1 2 3 4])
  qed
  from T' undo look show ?thesis by blast
qed

text \<open>
  Claim C5. After a successful \<open>CreateEntry\<close> of a freshly constructed entry on a
  well-formed set, \<open>Undo\<close> applied to the node that \<open>CreateEntry\<close> pushed into the undo
  buffer returns, and afterwards \<open>GetEntry\<close> and \<open>EntryExists\<close> give, for every transaction
  and every name, what they gave before the \<open>CreateEntry\<close>.
\<close>
theorem CreateEntry_Undo_restores_lookups:
  assumes "wf_CatalogSet s" and "fresh_entry s v"
    and "CreateEntry TRANSACTION_ID_START s T nm (Some v) = (Returns True, s', T')"
  shows "\<exists>e s''. undo_buffer T' = undo_buffer T @ [e] \<and>
           Undo s' e = (Returns (), s'') \<and>
           (\<forall>T2 k. GetEntry s'' T2 k = GetEntry s T2 k \<and>
                    EntryExists s'' T2 k = EntryExists s T2 k)"
proof -
  from CreateEntry_success_cases[OF assms(3)]
  consider "data s nm = None"
    | p where "data s nm = Some (Some p)" "timestamp (store s ! p) < TRANSACTION_ID_START"
        "deleted (store s ! p)"
    by auto
  then show ?thesis
  proof cases
    case 1
    from Undo_after_new_name[OF assms(1,2) 1 assms(3)] show ?thesis by auto
  next
    case 2
    from Undo_after_deleted_head[OF assms(1,2) 2 assms(3)] show ?thesis by auto
  qed
qed

lemma wf_set_dropped: "wf_CatalogSet set_dropped"
  by (auto simp: wf_CatalogSet_def example_defs nth_Cons split: if_splits nat.splits)

lemma fresh_set_dropped: "fresh_entry set_dropped 3"
  by (auto simp: fresh_entry_def example_defs nth_Cons split: if_splits nat.splits)

theorem CreateEntry_Undo_restores_lookups_witness:
  "wf_CatalogSet set_dropped \<and> fresh_entry set_dropped 3 \<and>
   fst (CreateEntry 100 set_dropped txn1 ''t'' (Some 3)) = Returns True \<and>
   GetEntry set_dropped txn2 ''t'' = Some (Returns None) \<and>
   (\<exists>e s''. undo_buffer (snd (snd (CreateEntry 100 set_dropped txn1 ''t'' (Some 3)))) =
               undo_buffer txn1 @ [e] \<and>
            Undo (fst (snd (CreateEntry 100 set_dropped txn1 ''t'' (Some 3)))) e =
              (Returns (), s'') \<and>
            (\<forall>T2 k. GetEntry s'' T2 k = GetEntry set_dropped T2 k \<and>
                     EntryExists s'' T2 k = EntryExists set_dropped T2 k))"
proof -
  obtain r s' T' where c: "CreateEntry 100 set_dropped txn1 ''t'' (Some 3) = (r, s', T')"
    by (cases "CreateEntry 100 set_dropped txn1 ''t'' (Some 3)")
  have "fst (CreateEntry 100 set_dropped txn1 ''t'' (Some 3)) = Returns True"
    by (simp add: CreateEntry_def CreateEntry_replace_def Let_def deref_def example_defs)
  with c have r: "r = Returns True" by simp
  have g: "GetEntry set_dropped txn2 ''t'' = Some (Returns None)"
    by (simp add: GetEntry_def GetEntry_loop_stop deref_def example_defs)
  from CreateEntry_Undo_restores_lookups[OF wf_set_dropped fresh_set_dropped c[unfolded r]]
  show ?thesis using c r g wf_set_dropped fresh_set_dropped by simp
qed

lemma GetEntry_loop_outcome:
  assumes "GetEntry_loop h T p = Some y"
  shows "y = Undefined \<or> (\<exists>q. y = Returns q \<and> q < length h)"
proof (rule GetEntry_loop.raw_induct[where P = "\<lambda>h T p y. y = Undefined \<or> (\<exists>q. y = Returns q \<and> q < length h)", OF _ assms], goal_cases)
  case (1 f h T p y)
  then show ?case by (auto split: if_splits option.splits)
qed

text \<open>
  Claim C9. \<open>EntryExists\<close> returns true exactly when \<open>GetEntry\<close> returns an entry, and
  false exactly when \<open>GetEntry\<close> returns null; one runs into undefined behaviour, or does
  not return, exactly when the other does. When the chain stored under the name ends in
  a node without child, \<open>EntryExists\<close> returns.
\<close>
theorem EntryExists_iff_GetEntry:
  "(EntryExists s T nm = Some (Returns True) \<longleftrightarrow>
      (\<exists>p. GetEntry s T nm = Some (Returns (Some p)))) \<and>
   (EntryExists s T nm = Some (Returns False) \<longleftrightarrow>
      GetEntry s T nm = Some (Returns None)) \<and>
   (EntryExists s T nm = Some Undefined \<longleftrightarrow> GetEntry s T nm = Some Undefined) \<and>
   (EntryExists s T nm = None \<longleftrightarrow> GetEntry s T nm = None) \<and>
   ((\<exists>p. data s nm = Some (Some p) \<and> chain (store s) p) \<longrightarrow>
      (\<exists>b. EntryExists s T nm = Some (Returns b)))"
proof -
  have fin: "\<exists>b. EntryExists s T nm = Some (Returns b)"
    if "data s nm = Some (Some p)" "chain (store s) p" for p
  proof -
    from chain_GetEntry_loop[OF that(2), of T] obtain q
      where "GetEntry_loop (store s) T p = Some (Returns q)" "q < length (store s)" by blast
    with that(1) show ?thesis
      by (simp add: EntryExists_def EntryExists_loop_eq deref_def)
  qed
  have corr: "(EntryExists s T nm = Some (Returns True) \<longleftrightarrow>
      (\<exists>p. GetEntry s T nm = Some (Returns (Some p)))) \<and>
   (EntryExists s T nm = Some (Returns False) \<longleftrightarrow>
      GetEntry s T nm = Some (Returns None)) \<and>
   (EntryExists s T nm = Some Undefined \<longleftrightarrow> GetEntry s T nm = Some Undefined) \<and>
   (EntryExists s T nm = None \<longleftrightarrow> GetEntry s T nm = None)"
  proof (cases "data s nm")
    case None
    then show ?thesis by (simp add: EntryExists_def GetEntry_def)
  next
    case (Some u)
    show ?thesis
    proof (cases u)
      case None
      with Some show ?thesis by (simp add: EntryExists_def GetEntry_def)
    next
      case (Some p)
      note d = \<open>data s nm = Some u\<close> Some
      show ?thesis
      proof (cases "GetEntry_loop (store s) T p")
        case None
        with d show ?thesis by (simp add: EntryExists_def GetEntry_def EntryExists_loop_eq)
      next
        case (Some y)
        from GetEntry_loop_outcome[OF Some] d Some show ?thesis
          by (auto simp: EntryExists_def GetEntry_def EntryExists_loop_eq deref_def
                   split: if_splits)
      qed
    qed
  qed
  from corr fin show ?thesis by blast
qed

lemma chain_set_live: "chain (store set_live) 0"
proof -
  have "chain (store set_live) 1"
    by (rule chain.terminal) (simp_all add: example_defs)
  then show ?thesis
    by (rule chain.link[rotated 2]) (simp_all add: example_defs)
qed

theorem EntryExists_iff_GetEntry_witness:
  "data set_live ''t'' = Some (Some 0) \<and> chain (store set_live) 0 \<and>
   GetEntry set_live txn1 ''t'' = Some (Returns (Some 0)) \<and>
   EntryExists set_live txn1 ''t'' = Some (Returns True) \<and>
   (\<exists>b. EntryExists set_live txn2 ''t'' = Some (Returns b))"
proof -
  have d: "data set_live ''t'' = Some (Some 0)" by (simp add: example_defs)
  have g: "GetEntry set_live txn1 ''t'' = Some (Returns (Some 0))"
    by (simp add: GetEntry_def GetEntry_loop_stop deref_def example_defs)
  from EntryExists_iff_GetEntry[of set_live txn1 "''t''"] g
  have e: "EntryExists set_live txn1 ''t'' = Some (Returns True)" by blast
  from EntryExists_iff_GetEntry[of set_live txn2 "''t''"] d chain_set_live
  have "\<exists>b. EntryExists set_live txn2 ''t'' = Some (Returns b)" by blast
  with d g e chain_set_live show ?thesis by simp
qed

section \<open>Properties of the column segment\<close>

lemma strict_nth_mono:
  fixes xs :: "'a::linorder list"
  assumes "\<forall>a b. a < b \<and> b < n \<longrightarrow> xs ! a < xs ! b" and "a \<le> b" and "b < n"
  shows "xs ! a \<le> xs ! b"
  using assms by (cases "a = b") (auto simp: le_less)

lemma CheckForConflicts_loop_result:
  "\<forall>a b. a < b \<and> b < count \<longrightarrow> ids ! a < ids ! b \<Longrightarrow>
   \<forall>a b. a < b \<and> b < n \<longrightarrow> tups ! a < tups ! b \<Longrightarrow>
   count \<le> length ids \<Longrightarrow> n \<le> length tups \<Longrightarrow> i < count \<Longrightarrow> j < n \<Longrightarrow>
   CheckForConflicts_loop ids count offset tups n i j =
     (if \<exists>i' j'. i \<le> i' \<and> i' < count \<and> j \<le> j' \<and> j' < n \<and>
                 ids ! i' - offset = int (tups ! j')
      then Throws (TransactionException ''Conflict on update!'')
      else Returns ())"
proof (induction ids count offset tups n i j rule: CheckForConflicts_loop.induct)
  case (1 ids count offset tups n i j)
  let ?E = "\<lambda>i j. \<exists>i' j'. i \<le> i' \<and> i' < count \<and> j \<le> j' \<and> j' < n \<and>
                 ids ! i' - offset = int (tups ! j')"
  from 1 have sid: "\<forall>a b. a < b \<and> b < count \<longrightarrow> ids ! a < ids ! b"
    and stu: "\<forall>a b. a < b \<and> b < n \<longrightarrow> tups ! a < tups ! b"
    and il: "i < length ids" and jl: "j < length tups" and ic: "i < count" and jn: "j < n"
    by simp_all
  have idm: "\<And>a. i \<le> a \<Longrightarrow> a < count \<Longrightarrow> ids ! i \<le> ids ! a"
    using strict_nth_mono[OF sid] by blast
  have tum: "\<And>b. j \<le> b \<Longrightarrow> b < n \<Longrightarrow> tups ! j \<le> tups ! b"
    using strict_nth_mono[OF stu] by blast
  consider (eq) "ids ! i - offset = int (tups ! j)"
    | (lt) "ids ! i - offset < int (tups ! j)"
    | (gt) "ids ! i - offset > int (tups ! j)" by linarith
  then show ?case
  proof cases
    case eq
    then have "?E i j" using ic jn by blast
    moreover have "CheckForConflicts_loop ids count offset tups n i j =
        Throws (TransactionException ''Conflict on update!'')"
      using eq il jl by (subst CheckForConflicts_loop.simps) simp
    ultimately show ?thesis by simp
  next
    case lt
    have skip: "?E i j \<longleftrightarrow> ?E (i + 1) j"
    proof
      assume "?E i j"
      then obtain i' j' where p: "i \<le> i'" "i' < count" "j \<le> j'" "j' < n"
        "ids ! i' - offset = int (tups ! j')" by blast
      have "i' \<noteq> i"
      proof
        assume "i' = i"
        with p lt tum[OF p(3,4)] show False by simp
      qed
      with p show "?E (i + 1) j" by (intro exI[of _ i'] exI[of _ j']) simp
    next
      assume "?E (i + 1) j"
      then obtain i' j' where "i + 1 \<le> i'" "i' < count" "j \<le> j'" "j' < n"
        "ids ! i' - offset = int (tups ! j')" by blast
      then show "?E i j" by (intro exI[of _ i'] exI[of _ j']) simp
    qed
    show ?thesis
    proof (cases "i + 1 = count")
      case True
      then have "\<not> ?E (i + 1) j" by simp
      with skip have "\<not> ?E i j" by simp
      moreover have "CheckForConflicts_loop ids count offset tups n i j = Returns ()"
        using lt il jl True by (subst CheckForConflicts_loop.simps) simp
      ultimately show ?thesis by simp
    next
      case False
      with ic have ic': "i + 1 < count" by simp
      have "CheckForConflicts_loop ids count offset tups n i j =
              CheckForConflicts_loop ids count offset tups n (i + 1) j"
        using lt il jl False by (subst CheckForConflicts_loop.simps) simp
      also have "\<dots> = (if ?E (i + 1) j then Throws (TransactionException ''Conflict on update!'')
                        else Returns ())"
        using "1.IH"(1) lt il jl False sid stu "1.prems"(3,4) ic' jn by simp
      finally show ?thesis using skip by simp
    qed
  next
    case gt
    have skip: "?E i j \<longleftrightarrow> ?E i (j + 1)"
    proof
      assume "?E i j"
      then obtain i' j' where p: "i \<le> i'" "i' < count" "j \<le> j'" "j' < n"
        "ids ! i' - offset = int (tups ! j')" by blast
      have "j' \<noteq> j"
      proof
        assume "j' = j"
        with p gt idm[OF p(1,2)] show False by simp
      qed
      with p show "?E i (j + 1)" by (intro exI[of _ i'] exI[of _ j']) simp
    next
      assume "?E i (j + 1)"
      then obtain i' j' where "i \<le> i'" "i' < count" "j + 1 \<le> j'" "j' < n"
        "ids ! i' - offset = int (tups ! j')" by blast
      then show "?E i j" by (intro exI[of _ i'] exI[of _ j']) simp
    qed
    show ?thesis
    proof (cases "j + 1 = n")
      case True
      then have "\<not> ?E i (j + 1)" by simp
      with skip have "\<not> ?E i j" by simp
      moreover have "CheckForConflicts_loop ids count offset tups n i j = Returns ()"
        using gt il jl True by (subst CheckForConflicts_loop.simps) simp
      ultimately show ?thesis by simp
    next
      case False
      with jn have jn': "j + 1 < n" by simp
      have "CheckForConflicts_loop ids count offset tups n i j =
              CheckForConflicts_loop ids count offset tups n i (j + 1)"
        using gt il jl False by (subst CheckForConflicts_loop.simps) simp
      also have "\<dots> = (if ?E i (j + 1) then Throws (TransactionException ''Conflict on update!'')
                        else Returns ())"
        using "1.IH"(2) gt il jl False sid stu "1.prems"(3,4) ic jn' by simp
      finally show ?thesis using skip by simp
    qed
  qed
qed

lemma sorted_take_nth:
  fixes xs :: "'a::linorder list"
  assumes "sorted_wrt (<) (take n xs)" and "n \<le> length xs"
  shows "\<forall>a b. a < b \<and> b < n \<longrightarrow> xs ! a < xs ! b"
proof (intro allI impI)
  fix a b assume ab: "a < b \<and> b < n"
  with assms have "take n xs ! a < take n xs ! b"
    by (intro sorted_wrt_nth_less[OF assms(1)]) simp_all
  with ab show "xs ! a < xs ! b" by simp
qed

lemma shares_tuple_nth:
  assumes "count \<le> length ids" and "N info \<le> length (tuples info)"
  shows "shares_tuple ids count offset info \<longleftrightarrow>
         (\<exists>i' j'. 0 \<le> i' \<and> i' < count \<and> 0 \<le> j' \<and> j' < N info \<and>
                  ids ! i' - offset = int (tuples info ! j'))"
proof
  assume "shares_tuple ids count offset info"
  then obtain x t where x: "x \<in> set (take count ids)"
    and t: "t \<in> set (take (N info) (tuples info))" and e: "x - offset = int t"
    by (auto simp: shares_tuple_def)
  from x assms obtain i' where "i' < count" "ids ! i' = x"
    by (auto simp: in_set_conv_nth)
  moreover from t assms obtain j' where "j' < N info" "tuples info ! j' = t"
    by (auto simp: in_set_conv_nth)
  ultimately show "\<exists>i' j'. 0 \<le> i' \<and> i' < count \<and> 0 \<le> j' \<and> j' < N info \<and>
                  ids ! i' - offset = int (tuples info ! j')"
    using e by auto
next
  assume "\<exists>i' j'. 0 \<le> i' \<and> i' < count \<and> 0 \<le> j' \<and> j' < N info \<and>
                  ids ! i' - offset = int (tuples info ! j')"
  then obtain i' j' where p: "i' < count" "j' < N info"
    "ids ! i' - offset = int (tuples info ! j')" by blast
  from p(1) assms have "ids ! i' \<in> set (take count ids)"
    by (auto simp: in_set_conv_nth intro!: exI[of _ i'])
  moreover from p(2) assms have "tuples info ! j' \<in> set (take (N info) (tuples info))"
    by (auto simp: in_set_conv_nth intro!: exI[of _ j'])
  ultimately show "shares_tuple ids count offset info"
    using p(3) by (auto simp: shares_tuple_def)
qed

lemma CheckForConflicts_loop_wf:
  assumes "wf_UpdateInfo info" and "0 < count" and "count \<le> length ids"
    and "sorted_wrt (<) (take count ids)"
  shows "CheckForConflicts_loop ids count offset (tuples info) (N info) 0 0 =
           (if shares_tuple ids count offset info
            then Throws (TransactionException ''Conflict on update!'')
            else Returns ())"
proof -
  from assms(1) have n: "0 < N info" "N info \<le> length (tuples info)"
    and st: "sorted_wrt (<) (take (N info) (tuples info))"
    by (simp_all add: wf_UpdateInfo_def)
  show ?thesis
    unfolding shares_tuple_nth[OF assms(3) n(2)]
    by (rule CheckForConflicts_loop_result
              [OF sorted_take_nth[OF assms(4,3)] sorted_take_nth[OF st n(2)] assms(3) n(2)
                  assms(2) n(1)])
qed

lemma Update_verify_ids_sorted:
  "\<forall>a b. a < b \<and> b < count \<longrightarrow> ids ! a < ids ! b \<Longrightarrow> count \<le> length ids \<Longrightarrow> 0 < i \<Longrightarrow>
   Update_verify_ids ids count i = Returns ()"
proof (induction ids count i rule: Update_verify_ids.induct)
  case (1 ids count i)
  show ?case
  proof (cases "i < count")
    case True
    with 1 have "ids ! (i - 1) < ids ! i" by simp
    with 1 True show ?thesis by (subst Update_verify_ids.simps) simp
  next
    case False
    then show ?thesis by (subst Update_verify_ids.simps) simp
  qed
qed

lemma CheckForConflicts_step:
  assumes "wf_UpdateInfo info" and "concurrent_writer T info"
    and "0 < count" and "count \<le> length ids" and "sorted_wrt (<) (take count ids)"
  shows "CheckForConflicts info T ids count offset node =
           (if shares_tuple ids count offset info
            then Throws (TransactionException ''Conflict on update!'')
            else (case next_info info of
                    None \<Rightarrow> Returns node
                  | Some nx \<Rightarrow> CheckForConflicts nx T ids count offset node))"
proof (cases info)
  case (UpdateInfo vn n tups nxt)
  with CheckForConflicts_loop_wf[OF assms(1,3,4,5), of offset]
  have l: "CheckForConflicts_loop ids count offset tups n 0 0 =
           (if shares_tuple ids count offset info
            then Throws (TransactionException ''Conflict on update!'')
            else Returns ())" by simp
  from assms(2) UpdateInfo have c: "vn \<noteq> transaction_id T" "vn > start_time T"
    by (simp_all add: concurrent_writer_def)
  show ?thesis
    unfolding UpdateInfo using l c UpdateInfo by simp
qed

lemma CheckForConflicts_chain_throws:
  assumes "0 < count" and "count \<le> length ids" and "sorted_wrt (<) (take count ids)"
  shows "\<forall>i \<in> set (update_chain info). wf_UpdateInfo i \<Longrightarrow>
         \<exists>c \<in> set (update_chain info). concurrent_writer T c \<and> shares_tuple ids count offset c \<Longrightarrow>
         CheckForConflicts info T ids count offset node =
           Throws (TransactionException ''Conflict on update!'')"
proof (induction info arbitrary: node)
  case (UpdateInfo vn n tups nxt)
  let ?info = "UpdateInfo vn n tups nxt"
  from UpdateInfo.prems(1) have wf: "wf_UpdateInfo ?info" by simp
  from UpdateInfo.prems(2) obtain c where c: "c \<in> set (update_chain ?info)"
    "concurrent_writer T c" "shares_tuple ids count offset c" by blast
  have rest: "CheckForConflicts nx T ids count offset node' =
                Throws (TransactionException ''Conflict on update!'')"
    if "nxt = Some nx" "c \<in> set (update_chain nx)" for nx node'
  proof -
    from that UpdateInfo.prems(1) have "\<forall>i \<in> set (update_chain nx). wf_UpdateInfo i" by simp
    moreover from that c have "\<exists>c \<in> set (update_chain nx).
        concurrent_writer T c \<and> shares_tuple ids count offset c" by blast
    ultimately show ?thesis using UpdateInfo.IH[of nx node'] that(1) by simp
  qed
  show ?case
  proof (cases "concurrent_writer T ?info")
    case True
    note step = CheckForConflicts_step[OF wf True assms, of offset node]
    show ?thesis
    proof (cases "shares_tuple ids count offset ?info")
      case True
      with step show ?thesis by simp
    next
      case False
      with c have "c \<noteq> ?info" by auto
      with c(1) obtain nx where nx: "nxt = Some nx" "c \<in> set (update_chain nx)"
        by (cases nxt) auto
      from step False nx(1) rest[OF nx, of node] show ?thesis by simp
    qed
  next
    case False
    with c have "c \<noteq> ?info" by auto
    with c(1) obtain nx where nx: "nxt = Some nx" "c \<in> set (update_chain nx)"
      by (cases nxt) auto
    from False have "vn = transaction_id T \<or> \<not> vn > start_time T"
      by (auto simp: concurrent_writer_def)
    then show ?thesis
    proof
      assume own: "vn = transaction_id T"
      then have "CheckForConflicts ?info T ids count offset node =
                   CheckForConflicts nx T ids count offset (Some ?info)"
        using nx(1) by simp
      with rest[OF nx, of "Some ?info"] show ?thesis by simp
    next
      assume old: "\<not> vn > start_time T"
      show ?thesis
      proof (cases "vn = transaction_id T")
        case True
        then have "CheckForConflicts ?info T ids count offset node =
                   CheckForConflicts nx T ids count offset (Some ?info)"
          using nx(1) by simp
        with rest[OF nx, of "Some ?info"] show ?thesis by simp
      next
        case False
        with old have "CheckForConflicts ?info T ids count offset node =
                   CheckForConflicts nx T ids count offset node"
          using nx(1) by simp
        with rest[OF nx, of node] show ?thesis by simp
      qed
    qed
  qed
qed

lemmas segment_example_defs = seg_updated_def seg_immutable_def manager_example_def
  Update_vector_none_def FetchBaseData_none_def txn1_def txn2_def



lemma CheckForConflicts_chain_returns:
  assumes "0 < count" and "count \<le> length ids" and "sorted_wrt (<) (take count ids)"
  shows "\<forall>i \<in> set (update_chain info). wf_UpdateInfo i \<Longrightarrow>
         \<not> (\<exists>c \<in> set (update_chain info).
               concurrent_writer T c \<and> shares_tuple ids count offset c) \<Longrightarrow>
         \<exists>node'. CheckForConflicts info T ids count offset node = Returns node'"
proof (induction info arbitrary: node)
  case (UpdateInfo vn n tups nxt)
  let ?info = "UpdateInfo vn n tups nxt"
  from UpdateInfo.prems(1) have wf: "wf_UpdateInfo ?info" by simp
  have rest: "\<exists>node''. CheckForConflicts nx T ids count offset node' = Returns node''"
    if "nxt = Some nx" for nx node'
  proof -
    from that UpdateInfo.prems(1) have "\<forall>i \<in> set (update_chain nx). wf_UpdateInfo i" by simp
    moreover from that UpdateInfo.prems(2)
    have "\<not> (\<exists>c \<in> set (update_chain nx).
               concurrent_writer T c \<and> shares_tuple ids count offset c)" by simp
    ultimately show ?thesis using UpdateInfo.IH[of nx node'] that by simp
  qed
  show ?case
  proof (cases "concurrent_writer T ?info")
    case True
    with UpdateInfo.prems(2) have ns: "\<not> shares_tuple ids count offset ?info" by simp
    note step = CheckForConflicts_step[OF wf True assms, of offset node]
    show ?thesis
    proof (cases nxt)
      case None
      with step ns show ?thesis by simp
    next
      case (Some nx)
      with step ns rest[OF Some, of node] show ?thesis by simp
    qed
  next
    case False
    show ?thesis
    proof (cases "vn = transaction_id T")
      case True
      show ?thesis
      proof (cases nxt)
        case None
        with True show ?thesis by simp
      next
        case (Some nx)
        with True have "CheckForConflicts ?info T ids count offset node =
                        CheckForConflicts nx T ids count offset (Some ?info)" by simp
        with rest[OF Some, of "Some ?info"] show ?thesis by simp
      qed
    next
      case own: False
      with False have old: "\<not> vn > start_time T" by (simp add: concurrent_writer_def)
      show ?thesis
      proof (cases nxt)
        case None
        with own old show ?thesis by simp
      next
        case (Some nx)
        with own old have "CheckForConflicts ?info T ids count offset node =
                           CheckForConflicts nx T ids count offset node" by simp
        with rest[OF Some, of node] show ?thesis by simp
      qed
    qed
  qed
qed

lemma Update_hands_on:
  assumes build: "NDEBUG \<or> MAXIMUM_BLOCK \<le> block_id seg"
    and cnt: "0 < count" "count \<le> length ids" "sorted_wrt (<) (take count ids)"
    and svs: "0 < STANDARD_VECTOR_SIZE"
    and first: "offset \<le> ids ! 0"
    and vi: "vector_index = nat ((ids ! 0 - offset) div int STANDARD_VECTOR_SIZE)"
    and vo: "vector_offset = offset + int (vector_index * STANDARD_VECTOR_SIZE)"
    and inb: "vector_index < max_vector_count seg"
    and vs: "versions (Update_create_versions seg) = Some vs" "vector_index < length vs"
    and wf: "\<forall>info. vs ! vector_index = Some info \<longrightarrow>
               (\<forall>i \<in> set (update_chain info). wf_UpdateInfo i)"
  shows "if \<exists>info. vs ! vector_index = Some info \<and>
              (\<exists>c \<in> set (update_chain info).
                 concurrent_writer T c \<and> shares_tuple ids count vector_offset c)
         then Update DEBUG NDEBUG MAXIMUM_BLOCK STANDARD_VECTOR_SIZE Update_vector seg T upd ids
                count offset =
              (Throws (TransactionException ''Conflict on update!''),
               Update_create_versions seg, T)
         else \<exists>node. Update DEBUG NDEBUG MAXIMUM_BLOCK STANDARD_VECTOR_SIZE Update_vector seg T
                        upd ids count offset =
                      Update_vector (Update_create_versions seg) T upd ids count
                        vector_index vector_offset node"
proof -
  have v: "Update_verify_ids ids count 1 = Returns ()"
    by (rule Update_verify_ids_sorted[OF sorted_take_nth[OF cnt(3,2)] cnt(2)]) simp
  from cnt have ne: "ids \<noteq> []" by auto
  from first svs have q: "0 \<le> (ids ! 0 - offset) div int STANDARD_VECTOR_SIZE"
    by (simp add: pos_imp_zdiv_nonneg_iff)
  have mvc: "max_vector_count (Update_create_versions seg) = max_vector_count seg"
    by (simp add: Update_create_versions_def split: option.splits)
  show ?thesis
  proof (cases "vs ! vector_index")
    case None
    have "Update DEBUG NDEBUG MAXIMUM_BLOCK STANDARD_VECTOR_SIZE Update_vector seg T upd ids
            count offset =
          Update_vector (Update_create_versions seg) T upd ids count vector_index
            vector_offset None"
      using build v ne svs first q inb mvc vs None vi vo
      by (auto simp: Update_def Let_def simp del: Update_verify_ids.simps)
    with None show ?thesis by auto
  next
    case (Some info)
    with wf have w: "\<forall>i \<in> set (update_chain info). wf_UpdateInfo i" by simp
    show ?thesis
    proof (cases "\<exists>c \<in> set (update_chain info).
                    concurrent_writer T c \<and> shares_tuple ids count vector_offset c")
      case True
      from CheckForConflicts_chain_throws[OF cnt w True, of None]
      have "Update DEBUG NDEBUG MAXIMUM_BLOCK STANDARD_VECTOR_SIZE Update_vector seg T upd
                   ids count offset =
                 (Throws (TransactionException ''Conflict on update!''),
                  Update_create_versions seg, T)"
        using build v ne svs first q inb mvc vs Some vi vo
        by (auto simp: Update_def Let_def simp del: Update_verify_ids.simps)
      with True Some show ?thesis by auto
    next
      case False
      from CheckForConflicts_chain_returns[OF cnt w False, of None] obtain node' where
        "CheckForConflicts info T ids count vector_offset None = Returns node'" by blast
      then have "Update DEBUG NDEBUG MAXIMUM_BLOCK STANDARD_VECTOR_SIZE Update_vector seg T upd
                   ids count offset =
                 Update_vector (Update_create_versions seg) T upd ids count vector_index
                   vector_offset node'"
        using build v ne svs first q inb mvc vs Some vi vo
        by (auto simp: Update_def Let_def simp del: Update_verify_ids.simps)
      with False Some show ?thesis by auto
    qed
  qed
qed

text \<open>
  Claim C7 says that \<open>Update\<close> on an immutable segment calls \<open>ToTemporary\<close> first, so that
  the block id is at least \<open>MAXIMUM_BLOCK\<close> after the call. It does not, in either build.
  On \<open>seg_immutable\<close> (block 3, below \<open>MAXIMUM_BLOCK\<close> = 1000) the build with assertions
  stops at the first assertion and leaves the segment as it was; the build without
  assertions creates the versions array and runs the in-place update on block 3, and
  the block id is 3 after the call.
\<close>
theorem Update_immutable_segment_counterexample:
  "block_id seg_immutable < 1000 \<and>
   Update True False 1000 1024 Update_vector_none seg_immutable txn1 () [5] 1 0 =
     (AssertionFailed, seg_immutable, txn1) \<and>
   Update False True 1000 1024 Update_vector_none seg_immutable txn1 () [5] 1 0 =
     (Returns (), \<lparr>block_id = 3, max_vector_count = 2, versions = Some [None, None]\<rparr>, txn1)"
  by (simp add: Update_def Update_create_versions_def segment_example_defs numeral_2_eq_2)

text \<open>
  Claim C7, amended. \<open>Update\<close> does not call \<open>ToTemporary\<close> and does not change the block
  id; it only asserts \<open>block_id >= MAXIMUM_BLOCK\<close> on entry. On an immutable segment
  (\<open>block_id < MAXIMUM_BLOCK\<close>) a build with assertions stops at that assertion and changes
  nothing. Wherever the entry assertion does not stop the call (the build has no
  assertions, or the segment is mutable) and the preconditions of \<open>Update\<close> hold on
  well-formed chains, \<open>Update\<close> creates the versions array if there is none and then
  throws the conflict when a concurrent node of the vector's chain shares a tuple with
  the ids, and otherwise hands the segment, with the block id it came with, to the
  in-place update of the vector: the block id is at least \<open>MAXIMUM_BLOCK\<close> there exactly
  when it was on entry. The promotion is done by \<open>ToTemporary\<close>: on an immutable
  segment it copies the first \<open>BLOCK_SIZE\<close> bytes of the pinned block into the in-memory
  block that the buffer manager allocated and makes that block the segment's, so that
  afterwards the block id is at least \<open>MAXIMUM_BLOCK\<close>.
\<close>
theorem Update_requires_mutable_block:
  "(\<not> NDEBUG \<and> block_id seg < MAXIMUM_BLOCK \<longrightarrow>
      Update DEBUG NDEBUG MAXIMUM_BLOCK STANDARD_VECTOR_SIZE Update_vector seg T upd ids count
        offset = (AssertionFailed, seg, T)) \<and>
   ((NDEBUG \<or> MAXIMUM_BLOCK \<le> block_id seg) \<and>
    0 < count \<and> count \<le> length ids \<and> sorted_wrt (<) (take count ids) \<and>
    0 < STANDARD_VECTOR_SIZE \<and> offset \<le> ids ! 0 \<and>
    vector_index = nat ((ids ! 0 - offset) div int STANDARD_VECTOR_SIZE) \<and>
    vector_offset = offset + int (vector_index * STANDARD_VECTOR_SIZE) \<and>
    vector_index < max_vector_count seg \<and>
    versions (Update_create_versions seg) = Some vs \<and> vector_index < length vs \<and>
    (\<forall>info. vs ! vector_index = Some info \<longrightarrow>
       (\<forall>i \<in> set (update_chain info). wf_UpdateInfo i)) \<longrightarrow>
      block_id (Update_create_versions seg) = block_id seg \<and>
      (if \<exists>info. vs ! vector_index = Some info \<and>
            (\<exists>c \<in> set (update_chain info).
               concurrent_writer T c \<and> shares_tuple ids count vector_offset c)
       then Update DEBUG NDEBUG MAXIMUM_BLOCK STANDARD_VECTOR_SIZE Update_vector seg T upd ids
              count offset =
            (Throws (TransactionException ''Conflict on update!''),
             Update_create_versions seg, T)
       else \<exists>node. Update DEBUG NDEBUG MAXIMUM_BLOCK STANDARD_VECTOR_SIZE Update_vector seg T
                      upd ids count offset =
                    Update_vector (Update_create_versions seg) T upd ids count
                      vector_index vector_offset node)) \<and>
   (block_id seg < MAXIMUM_BLOCK \<and> buffers manager (block_id seg) = Some current \<and>
    BLOCK_SIZE \<le> length current \<and> BLOCK_SIZE \<le> length (snd handle) \<and>
    MAXIMUM_BLOCK \<le> fst handle \<longrightarrow>
      ToTemporary MAXIMUM_BLOCK BLOCK_SIZE handle manager seg =
        (Returns (), seg\<lparr>block_id := fst handle\<rparr>,
         manager\<lparr>buffers := (buffers manager)
            (fst handle \<mapsto> take BLOCK_SIZE current @ drop BLOCK_SIZE (snd handle))\<rparr>) \<and>
      MAXIMUM_BLOCK \<le> block_id (seg\<lparr>block_id := fst handle\<rparr>))"
proof (intro conjI impI)
  assume "\<not> NDEBUG \<and> block_id seg < MAXIMUM_BLOCK"
  then show "Update DEBUG NDEBUG MAXIMUM_BLOCK STANDARD_VECTOR_SIZE Update_vector seg T upd ids
               count offset = (AssertionFailed, seg, T)"
    by (simp add: Update_def)
next
  show "block_id (Update_create_versions seg) = block_id seg"
    by (simp add: Update_create_versions_def split: option.splits)
next
  assume a: "(NDEBUG \<or> MAXIMUM_BLOCK \<le> block_id seg) \<and>
    0 < count \<and> count \<le> length ids \<and> sorted_wrt (<) (take count ids) \<and>
    0 < STANDARD_VECTOR_SIZE \<and> offset \<le> ids ! 0 \<and>
    vector_index = nat ((ids ! 0 - offset) div int STANDARD_VECTOR_SIZE) \<and>
    vector_offset = offset + int (vector_index * STANDARD_VECTOR_SIZE) \<and>
    vector_index < max_vector_count seg \<and>
    versions (Update_create_versions seg) = Some vs \<and> vector_index < length vs \<and>
    (\<forall>info. vs ! vector_index = Some info \<longrightarrow>
       (\<forall>i \<in> set (update_chain info). wf_UpdateInfo i))"
  show "if \<exists>info. vs ! vector_index = Some info \<and>
            (\<exists>c \<in> set (update_chain info).
               concurrent_writer T c \<and> shares_tuple ids count vector_offset c)
       then Update DEBUG NDEBUG MAXIMUM_BLOCK STANDARD_VECTOR_SIZE Update_vector seg T upd ids
              count offset =
            (Throws (TransactionException ''Conflict on update!''),
             Update_create_versions seg, T)
       else \<exists>node. Update DEBUG NDEBUG MAXIMUM_BLOCK STANDARD_VECTOR_SIZE Update_vector seg T
                      upd ids count offset =
                    Update_vector (Update_create_versions seg) T upd ids count
                      vector_index vector_offset node"
  proof (rule Update_hands_on)
    from a show "NDEBUG \<or> MAXIMUM_BLOCK \<le> block_id seg" by blast
    from a show "0 < count" by blast
    from a show "count \<le> length ids" by blast
    from a show "sorted_wrt (<) (take count ids)" by blast
    from a show "0 < STANDARD_VECTOR_SIZE" by blast
    from a show "offset \<le> ids ! 0" by blast
    from a show "vector_index = nat ((ids ! 0 - offset) div int STANDARD_VECTOR_SIZE)"
      by blast
    from a show "vector_offset = offset + int (vector_index * STANDARD_VECTOR_SIZE)"
      by blast
    from a show "vector_index < max_vector_count seg" by blast
    from a show "versions (Update_create_versions seg) = Some vs" by blast
    from a show "vector_index < length vs" by blast
    from a show "\<forall>info. vs ! vector_index = Some info \<longrightarrow>
                   (\<forall>i \<in> set (update_chain info). wf_UpdateInfo i)" by blast
  qed
next
  assume "block_id seg < MAXIMUM_BLOCK \<and> buffers manager (block_id seg) = Some current \<and>
    BLOCK_SIZE \<le> length current \<and> BLOCK_SIZE \<le> length (snd handle) \<and>
    MAXIMUM_BLOCK \<le> fst handle"
  then show "ToTemporary MAXIMUM_BLOCK BLOCK_SIZE handle manager seg =
        (Returns (), seg\<lparr>block_id := fst handle\<rparr>,
         manager\<lparr>buffers := (buffers manager)
            (fst handle \<mapsto> take BLOCK_SIZE current @ drop BLOCK_SIZE (snd handle))\<rparr>)"
    by (simp add: ToTemporary_def)
next
  assume "block_id seg < MAXIMUM_BLOCK \<and> buffers manager (block_id seg) = Some current \<and>
    BLOCK_SIZE \<le> length current \<and> BLOCK_SIZE \<le> length (snd handle) \<and>
    MAXIMUM_BLOCK \<le> fst handle"
  then show "MAXIMUM_BLOCK \<le> block_id (seg\<lparr>block_id := fst handle\<rparr>)" by simp
qed

theorem Update_requires_mutable_block_witness:
  "Update True False 1000 1024 Update_vector_none seg_immutable txn1 () [5] 1 0 =
     (AssertionFailed, seg_immutable, txn1) \<and>
   block_id (Update_create_versions seg_immutable) = 3 \<and>
   Update False True 1000 1024 Update_vector_none seg_immutable txn1 () [5] 1 0 =
     Update_vector_none (Update_create_versions seg_immutable) txn1 () [5] 1 0 0 None \<and>
   ToTemporary 1000 4 (1000, [0, 0, 0, 0, 0]) manager_example seg_immutable =
     (Returns (), seg_immutable\<lparr>block_id := 1000\<rparr>,
      \<lparr>buffers = Map.empty(3 \<mapsto> [1, 2, 3, 4], 1000 \<mapsto> [1, 2, 3, 4, 0])\<rparr>) \<and>
   1000 \<le> block_id (seg_immutable\<lparr>block_id := 1000\<rparr>) \<and>
   Update True False 1000 1024 Update_vector_none (seg_immutable\<lparr>block_id := 1000\<rparr>)
       txn1 () [5] 1 0 =
     (Returns (), \<lparr>block_id = 1000, max_vector_count = 2, versions = Some [None, None]\<rparr>,
      txn1) \<and>
   Update True False 1000 1024 Update_vector_none seg_updated txn1 () [1030] 1 0 =
     (Returns (), seg_updated, txn1)"
proof -
  let ?chain = "UpdateInfo 101 2 [3, 7] (Some (UpdateInfo 7 1 [5] None))"
  have 1: "\<not> False \<and> block_id seg_immutable < 1000" by (simp add: segment_example_defs)
  have 2: "(True \<or> 1000 \<le> block_id seg_immutable) \<and>
           (0::nat) < 1 \<and> 1 \<le> length [5::int] \<and> sorted_wrt (<) (take 1 [5::int]) \<and>
           (0::nat) < 1024 \<and> (0::int) \<le> [5] ! 0 \<and>
           (0::nat) = nat (([5] ! 0 - 0) div int 1024) \<and>
           (0::int) = 0 + int (0 * 1024) \<and>
           0 < max_vector_count seg_immutable \<and>
           versions (Update_create_versions seg_immutable) = Some [None, None] \<and>
           0 < length [None, None :: UpdateInfo option] \<and>
           (\<forall>info. [None, None] ! 0 = Some info \<longrightarrow>
              (\<forall>i \<in> set (update_chain info). wf_UpdateInfo i))"
    by (simp add: segment_example_defs Update_create_versions_def numeral_2_eq_2)
  have 3: "block_id seg_immutable < 1000 \<and>
           buffers manager_example (block_id seg_immutable) = Some [1, 2, 3, 4] \<and>
           4 \<le> length [1::nat, 2, 3, 4] \<and>
           4 \<le> length (snd (1000::int, [0::nat, 0, 0, 0, 0])) \<and>
           1000 \<le> fst (1000::int, [0::nat, 0, 0, 0, 0])"
    by (simp add: segment_example_defs)
  have 4: "(False \<or> 1000 \<le> block_id (seg_immutable\<lparr>block_id := 1000\<rparr>)) \<and>
           (0::nat) < 1 \<and> 1 \<le> length [5::int] \<and> sorted_wrt (<) (take 1 [5::int]) \<and>
           (0::nat) < 1024 \<and> (0::int) \<le> [5] ! 0 \<and>
           (0::nat) = nat (([5] ! 0 - 0) div int 1024) \<and>
           (0::int) = 0 + int (0 * 1024) \<and>
           0 < max_vector_count (seg_immutable\<lparr>block_id := 1000\<rparr>) \<and>
           versions (Update_create_versions (seg_immutable\<lparr>block_id := 1000\<rparr>)) =
             Some [None, None] \<and>
           0 < length [None, None :: UpdateInfo option] \<and>
           (\<forall>info. [None, None] ! 0 = Some info \<longrightarrow>
              (\<forall>i \<in> set (update_chain info). wf_UpdateInfo i))"
    by (simp add: segment_example_defs Update_create_versions_def numeral_2_eq_2)
  have 5: "(False \<or> 1000 \<le> block_id seg_updated) \<and>
           (0::nat) < 1 \<and> 1 \<le> length [1030::int] \<and> sorted_wrt (<) (take 1 [1030::int]) \<and>
           (0::nat) < 1024 \<and> (0::int) \<le> [1030] ! 0 \<and>
           (1::nat) = nat (([1030] ! 0 - 0) div int 1024) \<and>
           (1024::int) = 0 + int (1 * 1024) \<and>
           1 < max_vector_count seg_updated \<and>
           versions (Update_create_versions seg_updated) = Some [None, Some ?chain] \<and>
           1 < length [None, Some ?chain] \<and>
           (\<forall>info. [None, Some ?chain] ! 1 = Some info \<longrightarrow>
              (\<forall>i \<in> set (update_chain info). wf_UpdateInfo i))"
    by (simp add: segment_example_defs Update_create_versions_def wf_UpdateInfo_def)
  note inst = Update_requires_mutable_block
    [where Update_vector = Update_vector_none and T = txn1 and upd = "()"
       and MAXIMUM_BLOCK = 1000 and STANDARD_VECTOR_SIZE = 1024 and offset = 0 and count = 1
       and manager = manager_example and current = "[1, 2, 3, 4]" and BLOCK_SIZE = 4
       and handle = "(1000, [0, 0, 0, 0, 0])"]
  from inst[where seg = seg_immutable and DEBUG = True and NDEBUG = False and ids = "[5]"
              and vector_index = 0 and vector_offset = 0 and vs = "[None, None]"] 1 3
  have a: "Update True False 1000 1024 Update_vector_none seg_immutable txn1 () [5] 1 0 =
             (AssertionFailed, seg_immutable, txn1)"
    and t: "ToTemporary 1000 4 (1000, [0, 0, 0, 0, 0]) manager_example seg_immutable =
     (Returns (), seg_immutable\<lparr>block_id := 1000\<rparr>,
      \<lparr>buffers = Map.empty(3 \<mapsto> [1, 2, 3, 4], 1000 \<mapsto> [1, 2, 3, 4, 0])\<rparr>)"
    and t': "1000 \<le> block_id (seg_immutable\<lparr>block_id := 1000\<rparr>)"
    by (simp_all add: segment_example_defs)
  note r2 = inst[where seg = seg_immutable and DEBUG = False and NDEBUG = True
                   and ids = "[5]" and vector_index = 0 and vector_offset = 0
                   and vs = "[None, None]",
                 THEN conjunct2, THEN conjunct1, THEN mp, OF 2]
  have n2: "\<not> (\<exists>info. [None, None] ! 0 = Some info \<and>
                (\<exists>c \<in> set (update_chain info).
                   concurrent_writer txn1 c \<and> shares_tuple [5] 1 0 c))" by simp
  from r2 have b: "block_id (Update_create_versions seg_immutable) = 3"
    by (simp add: seg_immutable_def)
  from r2 have "if \<exists>info. [None, None] ! 0 = Some info \<and>
                (\<exists>c \<in> set (update_chain info).
                   concurrent_writer txn1 c \<and> shares_tuple [5] 1 0 c)
       then Update False True 1000 1024 Update_vector_none seg_immutable txn1 () [5] 1 0 =
            (Throws (TransactionException ''Conflict on update!''),
             Update_create_versions seg_immutable, txn1)
       else \<exists>node. Update False True 1000 1024 Update_vector_none seg_immutable txn1 () [5] 1 0 =
                    Update_vector_none (Update_create_versions seg_immutable) txn1 () [5] 1
                      0 0 node"
    by (rule conjunct2)
  with n2 have "\<exists>node. Update False True 1000 1024 Update_vector_none seg_immutable txn1 ()
                         [5] 1 0 =
                 Update_vector_none (Update_create_versions seg_immutable) txn1 () [5] 1
                   0 0 node"
    by (simp only: if_False)
  then have b': "Update False True 1000 1024 Update_vector_none seg_immutable txn1 () [5] 1 0 =
             Update_vector_none (Update_create_versions seg_immutable) txn1 () [5] 1 0 0 None"
    by (auto simp: Update_vector_none_def)
  note r4 = inst[where seg = "seg_immutable\<lparr>block_id := 1000\<rparr>" and DEBUG = True
                   and NDEBUG = False and ids = "[5]" and vector_index = 0
                   and vector_offset = 0 and vs = "[None, None]",
                 THEN conjunct2, THEN conjunct1, THEN mp, OF 4]
  from r4 have "if \<exists>info. [None, None] ! 0 = Some info \<and>
                (\<exists>c \<in> set (update_chain info).
                   concurrent_writer txn1 c \<and> shares_tuple [5] 1 0 c)
       then Update True False 1000 1024 Update_vector_none (seg_immutable\<lparr>block_id := 1000\<rparr>)
              txn1 () [5] 1 0 =
            (Throws (TransactionException ''Conflict on update!''),
             Update_create_versions (seg_immutable\<lparr>block_id := 1000\<rparr>), txn1)
       else \<exists>node. Update True False 1000 1024 Update_vector_none
                      (seg_immutable\<lparr>block_id := 1000\<rparr>) txn1 () [5] 1 0 =
                    Update_vector_none (Update_create_versions (seg_immutable\<lparr>block_id := 1000\<rparr>))
                      txn1 () [5] 1 0 0 node"
    by (rule conjunct2)
  with n2 have "\<exists>node. Update True False 1000 1024 Update_vector_none
                      (seg_immutable\<lparr>block_id := 1000\<rparr>) txn1 () [5] 1 0 =
                    Update_vector_none (Update_create_versions (seg_immutable\<lparr>block_id := 1000\<rparr>))
                      txn1 () [5] 1 0 0 node"
    by (simp only: if_False)
  then have c: "Update True False 1000 1024 Update_vector_none (seg_immutable\<lparr>block_id := 1000\<rparr>)
             txn1 () [5] 1 0 =
           (Returns (), \<lparr>block_id = 1000, max_vector_count = 2, versions = Some [None, None]\<rparr>,
            txn1)"
    by (auto simp: Update_vector_none_def Update_create_versions_def seg_immutable_def
          numeral_2_eq_2)
  note r5 = inst[where seg = seg_updated and DEBUG = True and NDEBUG = False
                   and ids = "[1030]" and vector_index = 1 and vector_offset = 1024
                   and vs = "[None, Some ?chain]",
                 THEN conjunct2, THEN conjunct1, THEN mp, OF 5]
  have n5: "\<not> (\<exists>info. [None, Some ?chain] ! 1 = Some info \<and>
                (\<exists>c \<in> set (update_chain info).
                   concurrent_writer txn1 c \<and> shares_tuple [1030] 1 1024 c))"
    by (simp add: concurrent_writer_def shares_tuple_def txn1_def)
  from r5 have "if \<exists>info. [None, Some ?chain] ! 1 = Some info \<and>
                (\<exists>c \<in> set (update_chain info).
                   concurrent_writer txn1 c \<and> shares_tuple [1030] 1 1024 c)
       then Update True False 1000 1024 Update_vector_none seg_updated txn1 () [1030] 1 0 =
            (Throws (TransactionException ''Conflict on update!''),
             Update_create_versions seg_updated, txn1)
       else \<exists>node. Update True False 1000 1024 Update_vector_none seg_updated txn1 () [1030]
                      1 0 =
                    Update_vector_none (Update_create_versions seg_updated) txn1 () [1030] 1
                      1 1024 node"
    by (rule conjunct2)
  with n5 have "\<exists>node. Update True False 1000 1024 Update_vector_none seg_updated txn1 () [1030]
                      1 0 =
                    Update_vector_none (Update_create_versions seg_updated) txn1 () [1030] 1
                      1 1024 node"
    by (simp only: if_False)
  then have d: "Update True False 1000 1024 Update_vector_none seg_updated txn1 () [1030] 1 0 =
           (Returns (), seg_updated, txn1)"
    by (auto simp: Update_vector_none_def Update_create_versions_def seg_updated_def)
  from a b b' t t' c d show ?thesis by simp
qed

text \<open>
  Claim C8 says that \<open>IndexScan\<close> throws whenever a version chain is present anywhere in
  the segment. The code looks at the slot of the scanned vector only: \<open>seg_updated\<close> has
  a chain in vector 1, and \<open>IndexScan\<close> of vector 0 takes the lock and fetches the base data.
\<close>
theorem IndexScan_other_vector_counterexample:
  "versions seg_updated =
     Some [None, Some (UpdateInfo 101 2 [3, 7] (Some (UpdateInfo 7 1 [5] None)))] \<and>
   IndexScan FetchBaseData_none seg_updated \<lparr>locks = []\<rparr> 0 =
     (Returns (), \<lparr>locks = [SharedLock]\<rparr>)"
  by (simp add: IndexScan_def segment_example_defs)

text \<open>
  Claim C8, amended. \<open>IndexScan\<close> throws the outstanding-updates exception exactly when
  the versions array exists and the slot of the scanned vector holds a chain; otherwise
  it fetches the base data of the vector. In both cases a call with \<open>vector_index = 0\<close> has
  pushed a shared lock onto \<open>state.locks\<close> first; a call with another index leaves the
  locks of the state as they are.
\<close>
theorem IndexScan_checks_scanned_vector:
  "(versions seg = Some vs \<and> vector_index < length vs \<and> vs ! vector_index \<noteq> None \<longrightarrow>
      IndexScan FetchBaseData seg state vector_index =
        (Throws (TransactionException ''Cannot create index with outstanding updates''),
         if vector_index = 0 then state\<lparr>locks := locks state @ [SharedLock]\<rparr> else state)) \<and>
   (versions seg = None \<or>
    (versions seg = Some vs \<and> vector_index < length vs \<and> vs ! vector_index = None) \<longrightarrow>
      IndexScan FetchBaseData seg state vector_index =
        FetchBaseData seg
          (if vector_index = 0 then state\<lparr>locks := locks state @ [SharedLock]\<rparr> else state)
          vector_index)"
  by (auto simp: IndexScan_def Let_def)

theorem IndexScan_checks_scanned_vector_witness:
  "IndexScan FetchBaseData_none seg_updated \<lparr>locks = [SharedLock]\<rparr> 1 =
     (Throws (TransactionException ''Cannot create index with outstanding updates''),
      \<lparr>locks = [SharedLock]\<rparr>) \<and>
   IndexScan FetchBaseData_none seg_updated \<lparr>locks = []\<rparr> 0 =
     (Returns (), \<lparr>locks = [SharedLock]\<rparr>) \<and>
   IndexScan FetchBaseData_none seg_immutable \<lparr>locks = []\<rparr> 0 =
     (Returns (), \<lparr>locks = [SharedLock]\<rparr>)"
proof -
  let ?vs = "[None, Some (UpdateInfo 101 2 [3, 7] (Some (UpdateInfo 7 1 [5] None)))]"
  have 1: "versions seg_updated = Some ?vs \<and> 1 < length ?vs \<and> ?vs ! 1 \<noteq> None"
    by (simp add: segment_example_defs)
  have 2: "versions seg_updated = None \<or>
           (versions seg_updated = Some ?vs \<and> 0 < length ?vs \<and> ?vs ! 0 = None)"
    by (simp add: segment_example_defs)
  have 3: "versions seg_immutable = None \<or>
           (versions seg_immutable = Some ?vs \<and> 0 < length ?vs \<and> ?vs ! 0 = None)"
    by (simp add: segment_example_defs)
  from IndexScan_checks_scanned_vector
         [of seg_updated ?vs 1 FetchBaseData_none "\<lparr>locks = [SharedLock]\<rparr>"] 1
  have a: "IndexScan FetchBaseData_none seg_updated \<lparr>locks = [SharedLock]\<rparr> 1 =
     (Throws (TransactionException ''Cannot create index with outstanding updates''),
      \<lparr>locks = [SharedLock]\<rparr>)" by simp
  from IndexScan_checks_scanned_vector
         [of seg_updated ?vs 0 FetchBaseData_none "\<lparr>locks = []\<rparr>"] 2
  have b: "IndexScan FetchBaseData_none seg_updated \<lparr>locks = []\<rparr> 0 =
     (Returns (), \<lparr>locks = [SharedLock]\<rparr>)" by (auto simp: FetchBaseData_none_def)
  from IndexScan_checks_scanned_vector
         [of seg_immutable ?vs 0 FetchBaseData_none "\<lparr>locks = []\<rparr>"] 3
  have c: "IndexScan FetchBaseData_none seg_immutable \<lparr>locks = []\<rparr> 0 =
     (Returns (), \<lparr>locks = [SharedLock]\<rparr>)" by (auto simp: FetchBaseData_none_def)
  from a b c show ?thesis by simp
qed

end
